theory Spec2Isabelle
  imports
    Main
    "HOL-Library.Char_ord"
    "HOL-Library.List_Lexorder"
    "HOL-Library.Product_Lexorder"
    "HOL-Library.Multiset"
begin

section \<open>The task and project store of the todo backend\<close>

text \<open>
  The development embeds the package \<open>internal/storage/sqlite\<close> (the store) together
  with the declarations of \<open>internal/models\<close> it uses. The store keeps its data in an
  SQLite database whose schema is created by \<open>migrate\<close>; the embedding makes that
  database an explicit value of type \<open>Store\<close> and every method of the Go type
  \<open>Store\<close> a function on it.

  Conventions of the embedding:
  \<^item> Go strings are byte sequences: \<open>string\<close> (a list of 8-bit characters).
  \<^item> Go's \<open>int64\<close> is \<open>int\<close>; the one arithmetic operation of the store on such a
    value, \<open>position.Int64 + 1\<close>, wraps around and is written with \<open>add64\<close>.
    Ids are given out by SQLite, one more than the largest id the table ever held;
    that SQLite refuses the \<open>INSERT\<close> once the largest \<open>int64\<close> has been used is, for
    the embedding, one of the ways in which the round trip of an \<open>INSERT\<close> fails.
  \<^item> Timestamps are the seconds \<open>CURRENT_TIMESTAMP\<close> yields, a \<open>nat\<close>.
  \<^item> What an operation reads from its surroundings is its first argument, an \<open>env\<close>:
    the wall clock, the random number behind \<open>randomPaletteColor\<close>, and for every
    database round trip of the operation whether it fails (an input/output error, a
    cancelled context). A round trip that fails leaves the database as it was, as
    SQLite guarantees for a single statement.
  \<^item> A method that writes returns the database after the call beside its Go result
    \<open>(value, error)\<close>, the latter as a sum with the error on the left.
\<close>

subsection \<open>Strings: \<open>strings.TrimSpace\<close>\<close>

text \<open>
  \<open>strings.TrimSpace\<close> removes leading and trailing white space as defined by Unicode,
  decoding the bytes as UTF-8. A white space character is one of the six of ASCII
  (tab, line feed, vertical tab, form feed, carriage return, space) or one of
  U+0085, U+00A0, U+1680, U+2000 to U+200A, U+2028, U+2029, U+202F, U+205F, U+3000
  in its UTF-8 encoding; an invalid byte decodes to U+FFFD, which is not white space.
\<close>

definition asciiSpace :: "char \<Rightarrow> bool" where
  "asciiSpace c = ((of_char c :: nat) \<in> {9, 10, 11, 12, 13, 32})"

definition utf8Space :: "string list" where
  "utf8Space = map (map char_of)
     ([194, 133] # [194, 160] # [225, 154, 128] #
      [226, 128, 128] # [226, 128, 129] # [226, 128, 130] # [226, 128, 131] #
      [226, 128, 132] # [226, 128, 133] # [226, 128, 134] # [226, 128, 135] #
      [226, 128, 136] # [226, 128, 137] # [226, 128, 138] #
      [226, 128, 168] # [226, 128, 169] # [226, 128, 175] # [226, 129, 159] #
      [227, 128, 128 :: nat] # [])"

fun trimLeading :: "string list \<Rightarrow> string \<Rightarrow> string" where
  "trimLeading encs [] = []"
| "trimLeading encs (c # cs) =
     (if asciiSpace c then trimLeading encs cs
      else (case find (\<lambda>e. e \<noteq> [] \<and> take (length e) (c # cs) = e) encs of
              None \<Rightarrow> c # cs
            | Some e \<Rightarrow> trimLeading encs (drop (length e - 1) cs)))"

definition TrimSpace :: "string \<Rightarrow> string" where
  "TrimSpace s = rev (trimLeading (map rev utf8Space) (rev (trimLeading utf8Space s)))"

subsection \<open>Models (\<open>internal/models\<close>)\<close>

type_synonym int64 = int
type_synonym time = nat

record Project =
  pID :: int64
  pName :: string
  pColor :: string
  pCreatedAt :: time
  pUpdatedAt :: time

record Task =
  tID :: int64
  tProjectID :: int64
  tTitle :: string
  tDescription :: string
  tStatus :: string
  tPosition :: int64
  tCreatedAt :: time
  tUpdatedAt :: time

definition ValidTaskStatuses :: "string set" where
  "ValidTaskStatuses = {''todo'', ''in_progress'', ''done''}"

text \<open>A value of Go's \<open>any\<close>, as far as the store looks at it: a string or not.\<close>

datatype any = AnyString string | AnyNumber int | AnyBool bool | AnyNil

text \<open>The type assertion \<open>changes[key].(string)\<close>: a missing key is the nil interface.\<close>

definition asString :: "(string \<rightharpoonup> any) \<Rightarrow> string \<Rightarrow> string option" where
  "asString changes key =
     (case changes key of Some (AnyString v) \<Rightarrow> Some v | _ \<Rightarrow> None)"

subsection \<open>The database\<close>

text \<open>
  The two tables of \<open>migrate\<close>, each as the list of its rows in rowid order, and the
  two counters SQLite keeps for \<open>AUTOINCREMENT\<close>: the largest id ever given out in
  each table.
\<close>

record Store =
  projects :: "Project list"
  tasks :: "Task list"
  projectsSeq :: int64
  tasksSeq :: int64

text \<open>What \<open>Open\<close> leaves behind on a fresh path once \<open>migrate\<close> has run.\<close>

definition migrate :: Store where
  "migrate = \<lparr>projects = [], tasks = [], projectsSeq = 0, tasksSeq = 0\<rparr>"

record env =
  now :: time
  rnd :: nat
  fault :: "nat \<Rightarrow> bool"

text \<open>The errors of the database driver and the errors the store wraps them in.\<close>

datatype dberr = StorageFault | ConstraintUnique | ConstraintForeignKey

datatype error =
    ListProjectsErr dberr
  | ProjectNameEmpty
  | InsertProjectErr dberr
  | ProjectNotFound
  | GetProjectErr dberr
  | UpdateProjectErr dberr
  | DeleteProjectErr dberr
  | ListTasksErr dberr
  | TaskTitleEmpty
  | InsertTaskErr dberr
  | TaskNotFound
  | GetTaskErr dberr
  | UpdateTaskErr dberr
  | DeleteTaskErr dberr
  | SelectPositionErr dberr

text \<open>
  Go's \<open>+\<close> on \<open>int64\<close>: the sum wraps around, \<open>wrap64\<close> maps an integer to the
  \<open>int64\<close> with the same last 64 bits.
\<close>

definition wrap64 :: "int \<Rightarrow> int64" where
  "wrap64 x = (x + 2 ^ 63) mod 2 ^ 64 - 2 ^ 63"

definition add64 :: "int64 \<Rightarrow> int64 \<Rightarrow> int64" where
  "add64 a b = wrap64 (a + b)"

subsubsection \<open>The statements\<close>

text \<open>
  \<open>INSERT INTO projects(name, color) VALUES(?, ?)\<close>: \<open>name\<close> is \<open>UNIQUE\<close>, the id is
  one more than the largest ever used, both timestamps default to the clock.
  The result is the new database and the id of the row.
\<close>

definition insertProject :: "bool \<Rightarrow> time \<Rightarrow> Store \<Rightarrow> string \<Rightarrow> string \<Rightarrow> dberr + Store \<times> int64" where
  "insertProject flt clock s name color =
     (if flt then Inl StorageFault
      else if name \<in> set (map pName (projects s)) then Inl ConstraintUnique
      else let ident = projectsSeq s + 1 in
        Inr (s\<lparr>projects := projects s @
                 [\<lparr>pID = ident, pName = name, pColor = color,
                   pCreatedAt = clock, pUpdatedAt = clock\<rparr>],
               projectsSeq := ident\<rparr>, ident))"

text \<open>
  \<open>UPDATE projects SET name = ?, color = ?, updated_at = CURRENT_TIMESTAMP WHERE id = ?\<close>;
  the trigger \<open>trg_projects_updated\<close> stamps the same row with the same clock value.
  The result is the new database and the number of rows affected.
\<close>

definition updateProject :: "bool \<Rightarrow> time \<Rightarrow> Store \<Rightarrow> string \<Rightarrow> string \<Rightarrow> int64 \<Rightarrow> dberr + Store \<times> nat" where
  "updateProject flt clock s name color ident =
     (if flt then Inl StorageFault
      else if ident \<notin> set (map pID (projects s)) then Inr (s, 0)
      else if name \<in> set (map pName (filter (\<lambda>p. pID p \<noteq> ident) (projects s)))
        then Inl ConstraintUnique
      else Inr (s\<lparr>projects := map (\<lambda>p. if pID p = ident
                                         then p\<lparr>pName := name, pColor := color, pUpdatedAt := clock\<rparr>
                                         else p) (projects s)\<rparr>,
                length (filter (\<lambda>p. pID p = ident) (projects s))))"

text \<open>
  \<open>DELETE FROM projects WHERE id = ?\<close>. The connection is opened with
  \<open>_foreign_keys=ON\<close> and \<open>tasks.project_id\<close> is declared
  \<open>REFERENCES projects(id) ON DELETE CASCADE\<close>: the tasks of a deleted project go
  with it.
\<close>

definition deleteProject :: "bool \<Rightarrow> Store \<Rightarrow> int64 \<Rightarrow> dberr + Store \<times> nat" where
  "deleteProject flt s ident =
     (if flt then Inl StorageFault
      else if ident \<notin> set (map pID (projects s)) then Inr (s, 0)
      else Inr (s\<lparr>projects := filter (\<lambda>p. pID p \<noteq> ident) (projects s),
                  tasks := filter (\<lambda>t. tProjectID t \<noteq> ident) (tasks s)\<rparr>,
                length (filter (\<lambda>p. pID p = ident) (projects s))))"

text \<open>
  \<open>INSERT INTO tasks(project_id, title, description, status, position) VALUES(?, ?, ?, ?, ?)\<close>:
  the foreign key must name a row of \<open>projects\<close>.
\<close>

definition insertTask :: "bool \<Rightarrow> time \<Rightarrow> Store \<Rightarrow> int64 \<Rightarrow> string \<Rightarrow> string \<Rightarrow> string \<Rightarrow> int64 \<Rightarrow> dberr + Store \<times> int64" where
  "insertTask flt clock s projectID title description status position =
     (if flt then Inl StorageFault
      else if projectID \<notin> set (map pID (projects s)) then Inl ConstraintForeignKey
      else let ident = tasksSeq s + 1 in
        Inr (s\<lparr>tasks := tasks s @
                 [\<lparr>tID = ident, tProjectID = projectID, tTitle = title,
                   tDescription = description, tStatus = status, tPosition = position,
                   tCreatedAt = clock, tUpdatedAt = clock\<rparr>],
               tasksSeq := ident\<rparr>, ident))"

text \<open>
  \<open>UPDATE tasks SET title = ?, description = ?, status = ?, position = ?,
  updated_at = CURRENT_TIMESTAMP WHERE id = ?\<close>, with the trigger \<open>trg_tasks_updated\<close>.
\<close>

definition updateTask :: "bool \<Rightarrow> time \<Rightarrow> Store \<Rightarrow> string \<Rightarrow> string \<Rightarrow> string \<Rightarrow> int64 \<Rightarrow> int64 \<Rightarrow> dberr + Store" where
  "updateTask flt clock s title description status position ident =
     (if flt then Inl StorageFault
      else Inr (s\<lparr>tasks := map (\<lambda>t. if tID t = ident
                                   then t\<lparr>tTitle := title, tDescription := description,
                                          tStatus := status, tPosition := position,
                                          tUpdatedAt := clock\<rparr>
                                   else t) (tasks s)\<rparr>))"

text \<open>\<open>DELETE FROM tasks WHERE id = ?\<close>.\<close>

definition deleteTask :: "bool \<Rightarrow> Store \<Rightarrow> int64 \<Rightarrow> dberr + Store \<times> nat" where
  "deleteTask flt s ident =
     (if flt then Inl StorageFault
      else Inr (s\<lparr>tasks := filter (\<lambda>t. tID t \<noteq> ident) (tasks s)\<rparr>,
                length (filter (\<lambda>t. tID t = ident) (tasks s))))"

text \<open>
  \<open>SELECT MAX(position) FROM tasks WHERE project_id = ? AND status = ?\<close>: one row,
  holding NULL when no task matches.
\<close>

definition partition :: "Store \<Rightarrow> int64 \<Rightarrow> string \<Rightarrow> Task list" where
  "partition s projectID status =
     filter (\<lambda>t. tProjectID t = projectID \<and> tStatus t = status) (tasks s)"

definition selectMaxPosition :: "bool \<Rightarrow> Store \<Rightarrow> int64 \<Rightarrow> string \<Rightarrow> dberr + int64 option" where
  "selectMaxPosition flt s projectID status =
     (if flt then Inl StorageFault
      else (case map tPosition (partition s projectID status) of
              [] \<Rightarrow> Inr None
            | x # xs \<Rightarrow> Inr (Some (fold max xs x))))"

subsection \<open>The store (\<open>internal/storage/sqlite\<close>)\<close>

text \<open>
  Every method numbers its database round trips in the order of the source text;
  \<open>fault e k\<close> says that round trip \<open>k\<close> of the call fails. \<open>GetProject\<close>,
  \<open>GetTask\<close> and \<open>nextPosition\<close> make one round trip each and are called by other
  methods too, so they take the flag itself. The driver's \<open>LastInsertId\<close> and
  \<open>RowsAffected\<close> only read what the statement has returned and have no error.
\<close>

definition palette :: "string list" where
  "palette = [''#2563eb'', ''#7c3aed'', ''#dc2626'', ''#059669'', ''#ea580c'',
              ''#d97706'', ''#0ea5e9'']"

definition randomPaletteColor :: "env \<Rightarrow> string" where
  "randomPaletteColor e = palette ! (rnd e mod length palette)"

text \<open>
  \<open>SELECT ... FROM projects ORDER BY created_at ASC\<close>. SQL leaves the order of rows
  with equal keys open; SQLite scans the table in rowid order and sorts with a merge
  sort that keeps that order among equal keys, which is what \<open>sort_key\<close> does.
\<close>

definition ListProjects :: "env \<Rightarrow> Store \<Rightarrow> error + Project list" where
  "ListProjects e s =
     (if fault e 0 then Inl (ListProjectsErr StorageFault)
      else Inr (sort_key pCreatedAt (projects s)))"

definition GetProject :: "bool \<Rightarrow> Store \<Rightarrow> int64 \<Rightarrow> error + Project" where
  "GetProject flt s ident =
     (if flt then Inl (GetProjectErr StorageFault)
      else (case find (\<lambda>p. pID p = ident) (projects s) of
              None \<Rightarrow> Inl ProjectNotFound
            | Some p \<Rightarrow> Inr p))"

definition CreateProject :: "env \<Rightarrow> Store \<Rightarrow> string \<Rightarrow> string \<Rightarrow> Store \<times> (error + Project)" where
  "CreateProject e s name color =
     (if TrimSpace name = [] then (s, Inl ProjectNameEmpty)
      else let color = (if color = [] then randomPaletteColor e else color) in
        (case insertProject (fault e 0) (now e) s (TrimSpace name) color of
           Inl err \<Rightarrow> (s, Inl (InsertProjectErr err))
         | Inr (s', ident) \<Rightarrow> (s', GetProject (fault e 1) s' ident)))"

definition UpdateProject :: "env \<Rightarrow> Store \<Rightarrow> int64 \<Rightarrow> string \<Rightarrow> string \<Rightarrow> Store \<times> (error + Project)" where
  "UpdateProject e s ident name color =
     (if TrimSpace name = [] then (s, Inl ProjectNameEmpty)
      else let color = (if color = [] then randomPaletteColor e else color) in
        (case updateProject (fault e 0) (now e) s (TrimSpace name) color ident of
           Inl err \<Rightarrow> (s, Inl (UpdateProjectErr err))
         | Inr (s', affected) \<Rightarrow>
             if affected = 0 then (s', Inl ProjectNotFound)
             else (s', GetProject (fault e 1) s' ident)))"

definition DeleteProject :: "env \<Rightarrow> Store \<Rightarrow> int64 \<Rightarrow> Store \<times> (error + unit)" where
  "DeleteProject e s ident =
     (case deleteProject (fault e 0) s ident of
        Inl err \<Rightarrow> (s, Inl (DeleteProjectErr err))
      | Inr (s', affected) \<Rightarrow>
          if affected = 0 then (s', Inl ProjectNotFound) else (s', Inr ()))"

text \<open>
  \<open>SELECT ... FROM tasks WHERE project_id = ? ORDER BY status, position, id\<close>:
  \<open>status\<close> is compared byte by byte (the collation BINARY), the two integers as
  signed numbers, and the three keys one after the other.
\<close>

definition taskOrder :: "Task \<Rightarrow> string \<times> int64 \<times> int64" where
  "taskOrder t = (tStatus t, tPosition t, tID t)"

definition ListTasks :: "env \<Rightarrow> Store \<Rightarrow> int64 \<Rightarrow> error + Task list" where
  "ListTasks e s projectID =
     (if fault e 0 then Inl (ListTasksErr StorageFault)
      else Inr (sort_key taskOrder (filter (\<lambda>t. tProjectID t = projectID) (tasks s))))"

definition GetTask :: "bool \<Rightarrow> Store \<Rightarrow> int64 \<Rightarrow> error + Task" where
  "GetTask flt s ident =
     (if flt then Inl (GetTaskErr StorageFault)
      else (case find (\<lambda>t. tID t = ident) (tasks s) of
              None \<Rightarrow> Inl TaskNotFound
            | Some t \<Rightarrow> Inr t))"

definition nextPosition :: "bool \<Rightarrow> Store \<Rightarrow> int64 \<Rightarrow> string \<Rightarrow> error + int64" where
  "nextPosition flt s projectID status =
     (case selectMaxPosition flt s projectID status of
        Inl err \<Rightarrow> Inl (SelectPositionErr err)
      | Inr (Some position) \<Rightarrow> Inr (add64 position 1)
      | Inr None \<Rightarrow> Inr 0)"

definition CreateTask :: "env \<Rightarrow> Store \<Rightarrow> Task \<Rightarrow> Store \<times> (error + Task)" where
  "CreateTask e s t =
     (if TrimSpace (tTitle t) = [] then (s, Inl TaskTitleEmpty)
      else let status = (if tStatus t \<in> ValidTaskStatuses then tStatus t else ''todo'') in
        (case nextPosition (fault e 0) s (tProjectID t) status of
           Inl err \<Rightarrow> (s, Inl err)
         | Inr pos \<Rightarrow>
             (case insertTask (fault e 1) (now e) s (tProjectID t) (TrimSpace (tTitle t))
                     (TrimSpace (tDescription t)) status pos of
                Inl err \<Rightarrow> (s, Inl (InsertTaskErr err))
              | Inr (s', ident) \<Rightarrow> (s', GetTask (fault e 2) s' ident))))"

text \<open>The fields \<open>UpdateTask\<close> resolves from the current row and the patch.\<close>

definition newTitle :: "Task \<Rightarrow> (string \<rightharpoonup> any) \<Rightarrow> string" where
  "newTitle current changes =
     (case asString changes ''title'' of
        Some v \<Rightarrow> if TrimSpace v \<noteq> [] then TrimSpace v else tTitle current
      | None \<Rightarrow> tTitle current)"

definition newDescription :: "Task \<Rightarrow> (string \<rightharpoonup> any) \<Rightarrow> string" where
  "newDescription current changes =
     (case asString changes ''description'' of
        Some v \<Rightarrow> TrimSpace v
      | None \<Rightarrow> tDescription current)"

definition newStatus :: "Task \<Rightarrow> (string \<rightharpoonup> any) \<Rightarrow> string" where
  "newStatus current changes =
     (case asString changes ''status'' of
        Some v \<Rightarrow> if v \<in> ValidTaskStatuses then v else tStatus current
      | None \<Rightarrow> tStatus current)"

definition UpdateTask :: "env \<Rightarrow> Store \<Rightarrow> int64 \<Rightarrow> (string \<rightharpoonup> any) \<Rightarrow> Store \<times> (error + Task)" where
  "UpdateTask e s ident changes =
     (case GetTask (fault e 0) s ident of
        Inl err \<Rightarrow> (s, Inl err)
      | Inr current \<Rightarrow>
          let title = newTitle current changes;
              description = newDescription current changes;
              status = newStatus current changes
          in (case (if status \<noteq> tStatus current
                    then nextPosition (fault e 1) s (tProjectID current) status
                    else Inr (tPosition current)) of
                Inl err \<Rightarrow> (s, Inl err)
              | Inr position \<Rightarrow>
                  (case updateTask (fault e 2) (now e) s title description status position ident of
                     Inl err \<Rightarrow> (s, Inl (UpdateTaskErr err))
                   | Inr s' \<Rightarrow> (s', GetTask (fault e 3) s' ident))))"

definition DeleteTask :: "env \<Rightarrow> Store \<Rightarrow> int64 \<Rightarrow> Store \<times> (error + unit)" where
  "DeleteTask e s ident =
     (case deleteTask (fault e 0) s ident of
        Inl err \<Rightarrow> (s, Inl (DeleteTaskErr err))
      | Inr (s', affected) \<Rightarrow>
          if affected = 0 then (s', Inl TaskNotFound) else (s', Inr ()))"

subsection \<open>The databases the store can produce\<close>

text \<open>
  A database is reachable when the store's own methods produce it from the empty
  schema, whatever the arguments, the clock and the faults of each call.
\<close>

inductive reachable :: "Store \<Rightarrow> bool" where
  r_migrate: "reachable migrate"
| r_CreateProject: "reachable s \<Longrightarrow> reachable (fst (CreateProject e s name color))"
| r_UpdateProject: "reachable s \<Longrightarrow> reachable (fst (UpdateProject e s ident name color))"
| r_DeleteProject: "reachable s \<Longrightarrow> reachable (fst (DeleteProject e s ident))"
| r_CreateTask: "reachable s \<Longrightarrow> reachable (fst (CreateTask e s t))"
| r_UpdateTask: "reachable s \<Longrightarrow> reachable (fst (UpdateTask e s ident changes))"
| r_DeleteTask: "reachable s \<Longrightarrow> reachable (fst (DeleteTask e s ident))"

text \<open>An environment without faults, for a given clock and random number.\<close>

definition quiet :: "time \<Rightarrow> nat \<Rightarrow> env" where
  "quiet clock r = \<lparr>now = clock, rnd = r, fault = (\<lambda>k. False)\<rparr>"

text \<open>
  What the schema enforces (primary keys, the unique name, the foreign key, ids below
  the \<open>AUTOINCREMENT\<close> counters) and what the store adds to it (a status of the
  enumeration).
\<close>

definition constraints :: "Store \<Rightarrow> bool" where
  "constraints s \<longleftrightarrow>
     distinct (map pID (projects s)) \<and>
     distinct (map pName (projects s)) \<and>
     distinct (map tID (tasks s)) \<and>
     (\<forall>i \<in> set (map pID (projects s)). i \<le> projectsSeq s) \<and>
     (\<forall>i \<in> set (map tID (tasks s)). i \<le> tasksSeq s) \<and>
     (\<forall>i \<in> set (map tProjectID (tasks s)). i \<in> set (map pID (projects s)))"

definition statusesValid :: "Store \<Rightarrow> bool" where
  "statusesValid s \<longleftrightarrow> (\<forall>t \<in> set (tasks s). tStatus t \<in> ValidTaskStatuses)"

subsection \<open>Notions the properties are stated with\<close>

text \<open>The status \<open>CreateTask\<close> stores for a given input.\<close>

definition createStatus :: "Task \<Rightarrow> string" where
  "createStatus t = (if tStatus t \<in> ValidTaskStatuses then tStatus t else ''todo'')"

text \<open>
  \<open>elsewhere projectID status s s'\<close>: the store got from \<open>s\<close> to \<open>s'\<close> by calls that
  neither create a task in the partition \<open>(projectID, status)\<close>, nor update or delete
  one of its tasks, nor move a task into it, nor delete its project.
\<close>

inductive elsewhere :: "int64 \<Rightarrow> string \<Rightarrow> Store \<Rightarrow> Store \<Rightarrow> bool"
  for projectID :: int64 and status :: string where
  e_same: "elsewhere projectID status s s"
| e_CreateProject:
    "elsewhere projectID status s s' \<Longrightarrow>
     elsewhere projectID status s (fst (CreateProject e s' name color))"
| e_UpdateProject:
    "elsewhere projectID status s s' \<Longrightarrow>
     elsewhere projectID status s (fst (UpdateProject e s' ident name color))"
| e_DeleteProject:
    "elsewhere projectID status s s' \<Longrightarrow> ident \<noteq> projectID \<Longrightarrow>
     elsewhere projectID status s (fst (DeleteProject e s' ident))"
| e_CreateTask:
    "elsewhere projectID status s s' \<Longrightarrow>
     \<not> (tProjectID t = projectID \<and> createStatus t = status) \<Longrightarrow>
     elsewhere projectID status s (fst (CreateTask e s' t))"
| e_UpdateTask:
    "elsewhere projectID status s s' \<Longrightarrow>
     ident \<notin> set (map tID (partition s' projectID status)) \<Longrightarrow>
     (\<And>current. GetTask False s' ident = Inr current \<Longrightarrow>
        \<not> (tProjectID current = projectID \<and> newStatus current changes = status)) \<Longrightarrow>
     elsewhere projectID status s (fst (UpdateTask e s' ident changes))"
| e_DeleteTask:
    "elsewhere projectID status s s' \<Longrightarrow>
     ident \<notin> set (map tID (partition s' projectID status)) \<Longrightarrow>
     elsewhere projectID status s (fst (DeleteTask e s' ident))"

text \<open>
  The order of \<open>ListTasks\<close>, spelled out: by status, then by position, then by id.
\<close>

definition taskBefore :: "Task \<Rightarrow> Task \<Rightarrow> bool" where
  "taskBefore a b \<longleftrightarrow>
     tStatus a < tStatus b \<or>
     (tStatus a = tStatus b \<and>
      (tPosition a < tPosition b \<or> (tPosition a = tPosition b \<and> tID a \<le> tID b)))"


definition belowMax :: "Store \<Rightarrow> int64 \<Rightarrow> string \<Rightarrow> bool" where
  "belowMax s projectID status \<longleftrightarrow>
     (\<forall>t \<in> set (partition s projectID status). tPosition t < 2 ^ 63 - 1)"

text \<open>\<open>precedes p q xs\<close>: \<open>q\<close> occurs in \<open>xs\<close> after the first occurrence of \<open>p\<close>.\<close>

fun precedes :: "'a \<Rightarrow> 'a \<Rightarrow> 'a list \<Rightarrow> bool" where
  "precedes p q [] = False"
| "precedes p q (x # xs) = (if x = p then q \<in> set xs else precedes p q xs)"

text \<open>
  Ids are given out in increasing order and rows are appended: the rows of
  \<open>projects\<close> stand in the order of their creation, and a smaller id is an earlier
  creation.
\<close>

definition idsIncrease :: "Store \<Rightarrow> bool" where
  "idsIncrease s \<longleftrightarrow> sorted_wrt (<) (map pID (projects s))"

text \<open>A byte that is neither white space nor part of a multi-byte character.\<close>

definition plain :: "char \<Rightarrow> bool" where
  "plain c = (\<not> asciiSpace c \<and> (of_char c :: nat) < 128)"


subsection \<open>Sample boards\<close>


text \<open>
  The scenario of the specification: the project ``Launch'' on an empty database,
  then tasks on its board, in environments without faults.
\<close>

definition launch :: Store where
  "launch = fst (CreateProject (quiet 10 0) migrate ''Launch'' [])"

definition card :: "string \<Rightarrow> string \<Rightarrow> Task" where
  "card title status =
     \<lparr>tID = 0, tProjectID = 1, tTitle = title, tDescription = [], tStatus = status,
      tPosition = 0, tCreatedAt = 0, tUpdatedAt = 0\<rparr>"

definition board1 :: Store where
  "board1 = fst (CreateTask (quiet 11 0) launch (card ''Write spec'' ''todo''))"

definition board2 :: Store where
  "board2 = fst (CreateTask (quiet 12 0) board1 (card ''Ship'' ''done''))"

definition board3 :: Store where
  "board3 = fst (CreateTask (quiet 13 0) board2 (card ''Review'' ''bogus''))"

text \<open>The rows these calls are expected to write.\<close>

definition launchRow :: Project where
  "launchRow = \<lparr>pID = 1, pName = ''Launch'', pColor = ''#2563eb'', pCreatedAt = 10, pUpdatedAt = 10\<rparr>"

definition written :: Task where
  "written = \<lparr>tID = 1, tProjectID = 1, tTitle = ''Write spec'', tDescription = [],
              tStatus = ''todo'', tPosition = 0, tCreatedAt = 11, tUpdatedAt = 11\<rparr>"

definition shipped :: Task where
  "shipped = \<lparr>tID = 2, tProjectID = 1, tTitle = ''Ship'', tDescription = [],
              tStatus = ''done'', tPosition = 0, tCreatedAt = 12, tUpdatedAt = 12\<rparr>"

definition review :: Task where
  "review = \<lparr>tID = 3, tProjectID = 1, tTitle = ''Review'', tDescription = [],
             tStatus = ''todo'', tPosition = 1, tCreatedAt = 13, tUpdatedAt = 13\<rparr>"

definition toProgress :: "string \<rightharpoonup> any" where
  "toProgress = [''status'' \<mapsto> AnyString ''in_progress'']"

definition moved :: Task where
  "moved = \<lparr>tID = 3, tProjectID = 1, tTitle = ''Review'', tDescription = [],
            tStatus = ''in_progress'', tPosition = 0, tCreatedAt = 13, tUpdatedAt = 14\<rparr>"

definition board4 :: Store where
  "board4 = fst (UpdateTask (quiet 14 0) board3 3 toProgress)"

text \<open>A patch that only sets the status.\<close>

definition toLane :: "string \<Rightarrow> string \<rightharpoonup> any" where
  "toLane status = [''status'' \<mapsto> AnyString status]"

text \<open>
  The other move of ``Review'' on \<open>board3\<close>: to \<open>done\<close>, where ``Ship'' already is.
\<close>

definition finished :: Task where
  "finished = \<lparr>tID = 3, tProjectID = 1, tTitle = ''Review'', tDescription = [],
               tStatus = ''done'', tPosition = 1, tCreatedAt = 13, tUpdatedAt = 14\<rparr>"

definition board5 :: Store where
  "board5 = fst (UpdateTask (quiet 14 0) board3 3 (toLane ''done''))"

definition bogusStatus :: "string \<rightharpoonup> any" where
  "bogusStatus = [''status'' \<mapsto> AnyString ''bogus'']"

text \<open>Two more projects, the first of them created within the second of ``Launch''.\<close>

definition planRow :: Project where
  "planRow = \<lparr>pID = 2, pName = ''Plan'', pColor = ''#111111'', pCreatedAt = 10, pUpdatedAt = 10\<rparr>"

definition opsRow :: Project where
  "opsRow = \<lparr>pID = 3, pName = ''Ops'', pColor = ''#222222'', pCreatedAt = 12, pUpdatedAt = 12\<rparr>"

definition office :: Store where
  "office = fst (CreateProject (quiet 12 0)
                   (fst (CreateProject (quiet 10 0) launch ''Plan'' ''#111111''))
                   ''Ops'' ''#222222'')"

text \<open>
  ``Plan'' created after ``Launch'' as before, but at a moment when the clock of the
  database shows an earlier time than it did for ``Launch''.
\<close>

definition earlyRow :: Project where
  "earlyRow = \<lparr>pID = 2, pName = ''Plan'', pColor = ''#111111'', pCreatedAt = 5, pUpdatedAt = 5\<rparr>"

definition stepback :: Store where
  "stepback = fst (CreateProject (quiet 5 0) launch ''Plan'' ''#111111'')"

text \<open>
  Three cards of the project ``Launch'', two in \<open>todo\<close> at the positions \<open>n\<close> and
  \<open>n + 1\<close> and one in \<open>done\<close> at the position \<open>n\<close>; which card is where turns with
  \<open>n\<close>. Moving the first card of \<open>todo\<close> to \<open>done\<close> and then the older card of \<open>done\<close>
  to \<open>todo\<close> leads from \<open>spin n\<close> to \<open>spin (n + 1)\<close>.
\<close>

definition spinTask :: "nat \<Rightarrow> nat \<Rightarrow> Task" where
  "spinTask n k =
     \<lparr>tID = int k + 1, tProjectID = 1, tTitle = ''card'', tDescription = [],
      tStatus = (if (k + 3 - n mod 3) mod 3 = 2 then ''done'' else ''todo''),
      tPosition = int n + (if (k + 3 - n mod 3) mod 3 = 1 then 1 else 0),
      tCreatedAt = 0, tUpdatedAt = 0\<rparr>"

definition spin :: "nat \<Rightarrow> Store" where
  "spin n = \<lparr>projects = [launchRow], tasks = map (spinTask n) [0, 1, 2],
             projectsSeq = 1, tasksSeq = 3\<rparr>"

definition respin :: "nat \<Rightarrow> Store" where
  "respin n =
     fst (UpdateTask (quiet 0 0)
            (fst (UpdateTask (quiet 0 0) (spin n) (int (n mod 3) + 1) (toLane ''done'')))
            (int ((n + 2) mod 3) + 1) (toLane ''todo''))"

text \<open>The board after 9223372036854775806 turns, and the row the next card gets there.\<close>

definition brim :: Store where
  "brim = spin 9223372036854775806"


text \<open>The same board after its card in \<open>done\<close> is moved to \<open>todo\<close>, and the row it becomes.\<close>

definition landed :: Task where
  "landed = \<lparr>tID = 3, tProjectID = 1, tTitle = ''card'', tDescription = [],
             tStatus = ''todo'', tPosition = - 9223372036854775808,
             tCreatedAt = 0, tUpdatedAt = 0\<rparr>"

definition tipped :: Store where
  "tipped = fst (UpdateTask (quiet 0 0) brim 3 (toLane ''todo''))"

section \<open>Properties\<close>

subsection \<open>What every reachable database satisfies\<close>

lemma map_key_update:
  "(\<And>x. k (f x) = k x) \<Longrightarrow> map k (map (\<lambda>x. if P x then f x else x) xs) = map k xs"
  by (induction xs) auto

lemma distinct_map_update:
  assumes "distinct (map k xs)" "distinct (map n xs)" "v \<notin> set (map n (filter (\<lambda>x. k x \<noteq> i) xs))"
    and "\<And>x. n (f x) = v" 
  shows "distinct (map n (map (\<lambda>x. if k x = i then f x else x) xs))"
  using assms
proof (induction xs)
  case Nil then show ?case by simp
next
  case (Cons a xs)
  show ?case
  proof (cases "k a = i")
    case True
    then have ne: "\<forall>x\<in>set xs. k x \<noteq> i" using Cons.prems(1) by (auto simp: image_iff)
    then have eq: "map (\<lambda>x. if k x = i then f x else x) xs = xs" by (simp add: map_idI)
    have "filter (\<lambda>x. k x \<noteq> i) xs = xs" using ne by simp
    then have "v \<notin> set (map n xs)" using Cons.prems(3) True by simp
    then show ?thesis using True eq Cons.prems(2,4) by simp
  next
    case False
    have ih: "distinct (map n (map (\<lambda>x. if k x = i then f x else x) xs))"
      using Cons.IH Cons.prems False by simp
    have "n a \<noteq> v" using Cons.prems(3) False by auto
    moreover have "n a \<notin> set (map n xs)" using Cons.prems(2) by simp
    ultimately have "n a \<notin> set (map n (map (\<lambda>x. if k x = i then f x else x) xs))"
      using Cons.prems(4) by (auto simp: image_iff)
    then show ?thesis using False ih by simp
  qed
qed

lemma insertProject_constraints:
  "constraints s \<Longrightarrow> insertProject flt c s n col = Inr (s', i) \<Longrightarrow> constraints s'"
  by (auto simp: constraints_def insertProject_def Let_def split: if_splits) fastforce+

lemma updateProject_constraints:
  assumes "constraints s" "updateProject flt c s n col i = Inr (s', k)"
  shows "constraints s'"
proof (cases "flt \<or> i \<notin> set (map pID (projects s))")
  case True
  then show ?thesis using assms by (auto simp: updateProject_def split: if_splits)
next
  case False
  let ?f = "\<lambda>p. p\<lparr>pName := n, pColor := col, pUpdatedAt := c\<rparr>"
  have nm: "n \<notin> set (map pName (filter (\<lambda>p. pID p \<noteq> i) (projects s)))"
    and s': "s' = s\<lparr>projects := map (\<lambda>p. if pID p = i then ?f p else p) (projects s)\<rparr>"
    using assms(2) False by (auto simp: updateProject_def split: if_splits)
  have p: "projects s' = map (\<lambda>p. if pID p = i then ?f p else p) (projects s)"
    and rest: "tasks s' = tasks s" "projectsSeq s' = projectsSeq s" "tasksSeq s' = tasksSeq s"
    by (simp_all add: s')
  have ids: "map pID (projects s') = map pID (projects s)"
    unfolding p by (rule map_key_update) simp
  have names: "distinct (map pName (projects s'))"
    unfolding p using assms(1) nm
    by (intro distinct_map_update [where k = pID and v = n]) (simp_all add: constraints_def)
  show ?thesis
    unfolding constraints_def rest ids using assms(1) names by (simp add: constraints_def)
qed

lemma deleteProject_constraints:
  "constraints s \<Longrightarrow> deleteProject flt s i = Inr (s', k) \<Longrightarrow> constraints s'"
  by (auto simp: constraints_def deleteProject_def distinct_map_filter split: if_splits) fastforce+

lemma insertTask_constraints:
  "constraints s \<Longrightarrow> insertTask flt c s p ti d st pos = Inr (s', i) \<Longrightarrow> constraints s'"
  by (auto simp: constraints_def insertTask_def Let_def split: if_splits) fastforce+

lemma updateTask_constraints:
  assumes "constraints s" "updateTask flt c s ti d st pos i = Inr s'"
  shows "constraints s'"
proof -
  let ?f = "\<lambda>t. t\<lparr>tTitle := ti, tDescription := d, tStatus := st, tPosition := pos, tUpdatedAt := c\<rparr>"
  have s': "s' = s\<lparr>tasks := map (\<lambda>t. if tID t = i then ?f t else t) (tasks s)\<rparr>"
    using assms(2) by (auto simp: updateTask_def split: if_splits)
  have t: "tasks s' = map (\<lambda>t. if tID t = i then ?f t else t) (tasks s)"
    and rest: "projects s' = projects s" "projectsSeq s' = projectsSeq s" "tasksSeq s' = tasksSeq s"
    by (simp_all add: s')
  have ids: "map tID (tasks s') = map tID (tasks s)"
    unfolding t by (rule map_key_update) simp
  have pids: "map tProjectID (tasks s') = map tProjectID (tasks s)"
    unfolding t by (rule map_key_update) simp
  show ?thesis
    unfolding constraints_def rest ids pids using assms(1) by (simp add: constraints_def)
qed

lemma deleteTask_constraints:
  "constraints s \<Longrightarrow> deleteTask flt s i = Inr (s', k) \<Longrightarrow> constraints s'"
  by (auto simp: constraints_def deleteTask_def distinct_map_filter split: if_splits)

lemma GetProject_mem: "GetProject flt s i = Inr p \<Longrightarrow> p \<in> set (projects s) \<and> pID p = i"
  by (auto simp: GetProject_def find_Some_iff split: if_splits option.splits)

lemma GetTask_mem: "GetTask flt s i = Inr t \<Longrightarrow> t \<in> set (tasks s) \<and> tID t = i"
  by (auto simp: GetTask_def find_Some_iff split: if_splits option.splits)

lemma CreateProject_constraints: "constraints s \<Longrightarrow> constraints (fst (CreateProject e s name color))"
  by (auto simp: CreateProject_def Let_def split: sum.splits prod.splits dest: insertProject_constraints)

lemma UpdateProject_constraints: "constraints s \<Longrightarrow> constraints (fst (UpdateProject e s i name color))"
  by (auto simp: UpdateProject_def Let_def split: sum.splits prod.splits dest: updateProject_constraints)

lemma DeleteProject_constraints: "constraints s \<Longrightarrow> constraints (fst (DeleteProject e s i))"
  by (auto simp: DeleteProject_def split: sum.splits prod.splits dest: deleteProject_constraints)

lemma CreateTask_constraints: "constraints s \<Longrightarrow> constraints (fst (CreateTask e s t))"
  by (auto simp: CreateTask_def Let_def split: sum.splits prod.splits dest: insertTask_constraints)

lemma UpdateTask_constraints: "constraints s \<Longrightarrow> constraints (fst (UpdateTask e s i ch))"
  by (auto simp: UpdateTask_def Let_def split: sum.splits prod.splits dest: updateTask_constraints)

lemma DeleteTask_constraints: "constraints s \<Longrightarrow> constraints (fst (DeleteTask e s i))"
  by (auto simp: DeleteTask_def split: sum.splits prod.splits dest: deleteTask_constraints)

lemma reachable_constraints: "reachable s \<Longrightarrow> constraints s"
proof (induction rule: reachable.induct)
  case r_migrate
  show ?case by (simp add: constraints_def migrate_def)
qed (simp_all add: CreateProject_constraints UpdateProject_constraints DeleteProject_constraints
      CreateTask_constraints UpdateTask_constraints DeleteTask_constraints)

lemma insertTask_statusesValid:
  "statusesValid s \<Longrightarrow> st \<in> ValidTaskStatuses \<Longrightarrow> insertTask flt c s p ti d st pos = Inr (s', i) \<Longrightarrow> statusesValid s'"
  by (auto simp: statusesValid_def insertTask_def Let_def split: if_splits)

lemma updateTask_statusesValid:
  "statusesValid s \<Longrightarrow> st \<in> ValidTaskStatuses \<Longrightarrow> updateTask flt c s ti d st pos i = Inr s' \<Longrightarrow> statusesValid s'"
  by (auto simp: statusesValid_def updateTask_def split: if_splits)

lemma newStatus_valid: "tStatus cur \<in> ValidTaskStatuses \<Longrightarrow> newStatus cur ch \<in> ValidTaskStatuses"
  by (simp add: newStatus_def split: option.splits)

lemma CreateProject_tasks: "tasks (fst (CreateProject e s name color)) = tasks s"
  by (auto simp: CreateProject_def insertProject_def Let_def split: sum.splits prod.splits if_splits)

lemma UpdateProject_tasks: "tasks (fst (UpdateProject e s i name color)) = tasks s"
  by (auto simp: UpdateProject_def updateProject_def Let_def split: sum.splits prod.splits if_splits)

lemma DeleteProject_statusesValid: "statusesValid s \<Longrightarrow> statusesValid (fst (DeleteProject e s i))"
  by (auto simp: DeleteProject_def deleteProject_def statusesValid_def split: sum.splits prod.splits if_splits)

lemma CreateTask_statusesValid: "statusesValid s \<Longrightarrow> statusesValid (fst (CreateTask e s t))"
proof -
  assume a: "statusesValid s"
  have v: "(if tStatus t \<in> ValidTaskStatuses then tStatus t else ''todo'') \<in> ValidTaskStatuses"
    by (simp add: ValidTaskStatuses_def)
  show ?thesis
    using a insertTask_statusesValid [OF a v]
    by (auto simp: CreateTask_def Let_def split: sum.splits prod.splits simp del: insertTask_statusesValid)
qed

lemma UpdateTask_statusesValid: "statusesValid s \<Longrightarrow> statusesValid (fst (UpdateTask e s i ch))"
proof -
  assume a: "statusesValid s"
  show ?thesis
  proof (cases "GetTask (fault e 0) s i")
    case (Inl err)
    then show ?thesis using a by (simp add: UpdateTask_def)
  next
    case (Inr cur)
    then have "tStatus cur \<in> ValidTaskStatuses"
      using a GetTask_mem [OF Inr] by (simp add: statusesValid_def)
    then have v: "newStatus cur ch \<in> ValidTaskStatuses" by (rule newStatus_valid)
    show ?thesis
      using a Inr updateTask_statusesValid [OF a v]
      by (auto simp: UpdateTask_def Let_def split: sum.splits)
  qed
qed

lemma DeleteTask_statusesValid: "statusesValid s \<Longrightarrow> statusesValid (fst (DeleteTask e s i))"
  by (auto simp: DeleteTask_def deleteTask_def statusesValid_def split: sum.splits prod.splits if_splits)

lemma reachable_statusesValid: "reachable s \<Longrightarrow> statusesValid s"
proof (induction rule: reachable.induct)
  case r_migrate
  show ?case by (simp add: statusesValid_def migrate_def)
next
  case (r_CreateProject s e name color)
  then show ?case by (simp add: statusesValid_def CreateProject_tasks)
next
  case (r_UpdateProject s e ident name color)
  then show ?case by (simp add: statusesValid_def UpdateProject_tasks)
qed (simp_all add: DeleteProject_statusesValid CreateTask_statusesValid
      UpdateTask_statusesValid DeleteTask_statusesValid)

lemma selectMaxPosition_Max:
  "selectMaxPosition False s pid st =
     Inr (if partition s pid st = [] then None
          else Some (Max (set (map tPosition (partition s pid st)))))"
proof (cases "partition s pid st")
  case Nil
  then show ?thesis by (simp add: selectMaxPosition_def)
next
  case (Cons a list)
  have "fold max (map tPosition list) (tPosition a) = Max (set (tPosition a # map tPosition list))"
    by (simp only: Max.set_eq_fold)
  then show ?thesis using Cons by (simp add: selectMaxPosition_def)
qed

lemma nextPosition_Max:
  "nextPosition False s pid st =
     Inr (if partition s pid st = [] then 0
          else add64 (Max (set (map tPosition (partition s pid st)))) 1)"
  by (simp add: nextPosition_def selectMaxPosition_Max)

lemma wrap64_id: "- (2 ^ 63) \<le> x \<Longrightarrow> x < 2 ^ 63 \<Longrightarrow> wrap64 x = x"
  by (simp add: wrap64_def)

lemma wrap64_range: "- (2 ^ 63) \<le> wrap64 x \<and> wrap64 x < 2 ^ 63"
  by (simp add: wrap64_def)

lemma find_snoc_new:
  "\<forall>x\<in>set xs. \<not> P x \<Longrightarrow> P y \<Longrightarrow> find P (xs @ [y]) = Some y"
  by (induction xs) auto

text \<open>What a successful \<open>CreateTask\<close> has done.\<close>

lemma CreateTask_Inr:
  assumes c: "constraints s" and r: "CreateTask e s t = (s', Inr t')"
  shows "nextPosition False s (tProjectID t) (createStatus t) = Inr (tPosition t')"
    and "t' = \<lparr>tID = tasksSeq s + 1, tProjectID = tProjectID t, tTitle = TrimSpace (tTitle t),
               tDescription = TrimSpace (tDescription t), tStatus = createStatus t,
               tPosition = tPosition t', tCreatedAt = now e, tUpdatedAt = now e\<rparr>"
    and "s' = s\<lparr>tasks := tasks s @ [t'], tasksSeq := tasksSeq s + 1\<rparr>"
    and "TrimSpace (tTitle t) \<noteq> []" and "tProjectID t \<in> set (map pID (projects s))"
proof -
  have ti: "TrimSpace (tTitle t) \<noteq> []"
    using r by (auto simp: CreateTask_def)
  obtain pos where np: "nextPosition (fault e 0) s (tProjectID t) (createStatus t) = Inr pos"
    using r ti by (auto simp: CreateTask_def createStatus_def Let_def split: sum.splits)
  then have f0: "\<not> fault e 0"
    by (auto simp: nextPosition_def selectMaxPosition_def split: if_splits)
  define row where "row = \<lparr>tID = tasksSeq s + 1, tProjectID = tProjectID t, tTitle = TrimSpace (tTitle t),
               tDescription = TrimSpace (tDescription t), tStatus = createStatus t,
               tPosition = pos, tCreatedAt = now e, tUpdatedAt = now e\<rparr>"
  define s1 where "s1 = s\<lparr>tasks := tasks s @ [row], tasksSeq := tasksSeq s + 1\<rparr>"
  have ins: "insertTask (fault e 1) (now e) s (tProjectID t) (TrimSpace (tTitle t))
               (TrimSpace (tDescription t)) (createStatus t) pos = Inr (s1, tasksSeq s + 1)"
    and fk: "tProjectID t \<in> set (map pID (projects s))"
    using r ti np
    by (auto simp: CreateTask_def createStatus_def Let_def insertTask_def s1_def row_def
        split: sum.splits if_splits)
  have get: "s' = s1 \<and> GetTask (fault e 2) s1 (tasksSeq s + 1) = Inr t'"
    using r ti np ins by (auto simp add: CreateTask_def createStatus_def Let_def)
  have fresh: "\<forall>x\<in>set (tasks s). \<not> tID x = tasksSeq s + 1"
    using c by (fastforce simp: constraints_def)
  have "find (\<lambda>x. tID x = tasksSeq s + 1) (tasks s1) = Some row"
    unfolding s1_def using fresh by (simp add: find_snoc_new row_def)
  then have "t' = row" and "s' = s1"
    using get by (auto simp: GetTask_def split: if_splits)
  then show "nextPosition False s (tProjectID t) (createStatus t) = Inr (tPosition t')"
    and "t' = \<lparr>tID = tasksSeq s + 1, tProjectID = tProjectID t, tTitle = TrimSpace (tTitle t),
               tDescription = TrimSpace (tDescription t), tStatus = createStatus t,
               tPosition = tPosition t', tCreatedAt = now e, tUpdatedAt = now e\<rparr>"
    and "s' = s\<lparr>tasks := tasks s @ [t'], tasksSeq := tasksSeq s + 1\<rparr>"
    and "TrimSpace (tTitle t) \<noteq> []" and "tProjectID t \<in> set (map pID (projects s))"
    using np f0 ti fk by (simp_all add: row_def s1_def)
qed

lemma find_map_update:
  "(\<And>x. k (f x) = k x) \<Longrightarrow>
   find (\<lambda>x. k x = i) (map (\<lambda>x. if k x = i then f x else x) xs) = map_option f (find (\<lambda>x. k x = i) xs)"
  by (induction xs) auto

text \<open>The database after \<open>CreateTask\<close>, whatever the call returns.\<close>

lemma CreateTask_fst:
  "fst (CreateTask e s t) = s \<or>
   (\<exists>pos. nextPosition False s (tProjectID t) (createStatus t) = Inr pos \<and>
      tProjectID t \<in> set (map pID (projects s)) \<and> TrimSpace (tTitle t) \<noteq> [] \<and>
      \<not> fault e 0 \<and> \<not> fault e 1 \<and>
      fst (CreateTask e s t) =
        s\<lparr>tasks := tasks s @
             [\<lparr>tID = tasksSeq s + 1, tProjectID = tProjectID t, tTitle = TrimSpace (tTitle t),
               tDescription = TrimSpace (tDescription t), tStatus = createStatus t,
               tPosition = pos, tCreatedAt = now e, tUpdatedAt = now e\<rparr>],
           tasksSeq := tasksSeq s + 1\<rparr>)"
  by (auto simp: CreateTask_def createStatus_def Let_def insertTask_def nextPosition_def
      selectMaxPosition_def split: sum.splits if_splits option.splits list.splits)

text \<open>The database after \<open>UpdateTask\<close>, whatever the call returns.\<close>

lemma UpdateTask_fst:
  "fst (UpdateTask e s i ch) = s \<or>
   (\<exists>cur pos. GetTask False s i = Inr cur \<and>
      (if newStatus cur ch \<noteq> tStatus cur
       then nextPosition False s (tProjectID cur) (newStatus cur ch) = Inr pos
       else pos = tPosition cur) \<and>
      \<not> fault e 0 \<and> \<not> fault e 2 \<and>
      fst (UpdateTask e s i ch) =
        s\<lparr>tasks := map (\<lambda>t. if tID t = i
                             then t\<lparr>tTitle := newTitle cur ch, tDescription := newDescription cur ch,
                                    tStatus := newStatus cur ch, tPosition := pos,
                                    tUpdatedAt := now e\<rparr>
                             else t) (tasks s)\<rparr>)"
proof (cases "GetTask (fault e 0) s i")
  case (Inl err)
  then show ?thesis by (simp add: UpdateTask_def)
next
  case (Inr cur)
  then have f0: "\<not> fault e 0" and g: "GetTask False s i = Inr cur"
    by (auto simp: GetTask_def split: if_splits)
  show ?thesis
  proof (cases "newStatus cur ch \<noteq> tStatus cur")
    case True
    show ?thesis
    proof (cases "nextPosition (fault e 1) s (tProjectID cur) (newStatus cur ch)")
      case (Inl err)
      then show ?thesis using Inr True by (simp add: UpdateTask_def Let_def)
    next
      case np: (Inr pos)
      then have "nextPosition False s (tProjectID cur) (newStatus cur ch) = Inr pos"
        by (auto simp: nextPosition_def selectMaxPosition_def split: if_splits)
      then show ?thesis using Inr True np g f0
        by (auto simp: UpdateTask_def Let_def updateTask_def split: sum.splits if_splits)
    qed
  next
    case False
    then show ?thesis using Inr g f0
      by (auto simp: UpdateTask_def Let_def updateTask_def split: sum.splits if_splits)
  qed
qed

text \<open>What a successful \<open>UpdateTask\<close> has done.\<close>

lemma UpdateTask_Inr:
  assumes r: "UpdateTask e s i ch = (s', Inr t')"
  shows "\<exists>cur. GetTask False s i = Inr cur \<and>
      (if newStatus cur ch \<noteq> tStatus cur
       then nextPosition False s (tProjectID cur) (newStatus cur ch) = Inr (tPosition t')
       else tPosition t' = tPosition cur) \<and>
      t' = cur\<lparr>tTitle := newTitle cur ch, tDescription := newDescription cur ch,
               tStatus := newStatus cur ch, tPosition := tPosition t', tUpdatedAt := now e\<rparr> \<and>
      s' = s\<lparr>tasks := map (\<lambda>t. if tID t = i
                             then t\<lparr>tTitle := newTitle cur ch, tDescription := newDescription cur ch,
                                    tStatus := newStatus cur ch, tPosition := tPosition t',
                                    tUpdatedAt := now e\<rparr>
                             else t) (tasks s)\<rparr> \<and>
      GetTask False s' i = Inr t'"
proof -
  obtain cur where c0: "GetTask (fault e 0) s i = Inr cur"
    using r by (cases "GetTask (fault e 0) s i") (auto simp: UpdateTask_def)
  then have f0: "\<not> fault e 0" and g: "GetTask False s i = Inr cur"
    by (auto simp: GetTask_def split: if_splits)
  obtain pos where p: "(if newStatus cur ch \<noteq> tStatus cur
                    then nextPosition (fault e 1) s (tProjectID cur) (newStatus cur ch)
                    else Inr (tPosition cur)) = Inr pos"
    using r c0 by (auto simp: UpdateTask_def Let_def split: sum.splits)
  then have p': "if newStatus cur ch \<noteq> tStatus cur
       then nextPosition False s (tProjectID cur) (newStatus cur ch) = Inr pos
       else pos = tPosition cur"
    by (auto simp: nextPosition_def selectMaxPosition_def split: if_splits)
  let ?f = "\<lambda>t. t\<lparr>tTitle := newTitle cur ch, tDescription := newDescription cur ch,
                                    tStatus := newStatus cur ch, tPosition := pos,
                                    tUpdatedAt := now e\<rparr>"
  define s1 where "s1 = s\<lparr>tasks := map (\<lambda>t. if tID t = i then ?f t else t) (tasks s)\<rparr>"
  have u: "updateTask (fault e 2) (now e) s (newTitle cur ch) (newDescription cur ch) (newStatus cur ch) pos i = Inr s1"
    using r c0 p by (auto simp: UpdateTask_def Let_def updateTask_def s1_def split: sum.splits if_splits)
  then have get: "s' = s1" "GetTask (fault e 3) s1 i = Inr t'"
    using r c0 p by (auto simp: UpdateTask_def Let_def)
  have "find (\<lambda>x. tID x = i) (tasks s1) = map_option ?f (find (\<lambda>x. tID x = i) (tasks s))"
    unfolding s1_def by (simp add: find_map_update [where k = tID])
  moreover have "find (\<lambda>x. tID x = i) (tasks s) = Some cur"
    using g by (auto simp: GetTask_def split: option.splits)
  ultimately have fs: "find (\<lambda>x. tID x = i) (tasks s1) = Some (?f cur)" by simp
  then have t': "t' = ?f cur" using get(2) by (auto simp: GetTask_def split: if_splits)
  then have pos: "tPosition t' = pos" by simp
  have g': "GetTask False s1 i = Inr t'" using fs t' by (simp add: GetTask_def)
  show ?thesis
    apply (rule exI [of _ cur])
    using g p' t' get(1) g' unfolding s1_def pos by simp
qed

lemma UpdateTask_Inr_current:
  assumes r: "UpdateTask e s i ch = (s', Inr t')" and g: "GetTask False s i = Inr current"
  shows "GetTask False s' i = Inr t'" and "tStatus t' = newStatus current ch"
    and "if newStatus current ch \<noteq> tStatus current
         then nextPosition False s (tProjectID current) (newStatus current ch) = Inr (tPosition t')
         else tPosition t' = tPosition current"
    and "tID t' = i" and "tID current = i"
    and "tProjectID t' = tProjectID current" and "tCreatedAt t' = tCreatedAt current"
proof -
  from UpdateTask_Inr [OF r] obtain cur where cur: "GetTask False s i = Inr cur"
    and pos: "if newStatus cur ch \<noteq> tStatus cur
       then nextPosition False s (tProjectID cur) (newStatus cur ch) = Inr (tPosition t')
       else tPosition t' = tPosition cur"
    and t': "t' = cur\<lparr>tTitle := newTitle cur ch, tDescription := newDescription cur ch,
               tStatus := newStatus cur ch, tPosition := tPosition t', tUpdatedAt := now e\<rparr>"
    and g': "GetTask False s' i = Inr t'"
    by blast
  have eq: "cur = current" using g cur by simp
  have i: "tID current = i" using GetTask_mem [OF g] by simp
  show "GetTask False s' i = Inr t'" by (rule g')
  show "tStatus t' = newStatus current ch" by (subst t') (simp add: eq)
  show "if newStatus current ch \<noteq> tStatus current
         then nextPosition False s (tProjectID current) (newStatus current ch) = Inr (tPosition t')
         else tPosition t' = tPosition current"
    using pos unfolding eq .
  show "tID current = i" by (rule i)
  show "tID t' = i" by (subst t') (simp add: eq i)
  show "tProjectID t' = tProjectID current" by (subst t') (simp add: eq)
  show "tCreatedAt t' = tCreatedAt current" by (subst t') (simp add: eq)
qed

lemma UpdateTask_projects: "projects (fst (UpdateTask e s i ch)) = projects s"
  using UpdateTask_fst [of e s i ch] by auto

subsection \<open>Calls that leave a partition alone\<close>

lemma filter_map_untouched:
  "(\<And>x. x \<in> set xs \<Longrightarrow> g x \<noteq> x \<Longrightarrow> \<not> P x \<and> \<not> P (g x)) \<Longrightarrow> filter P (map g xs) = filter P xs"
proof (induction xs)
  case Nil
  then show ?case by simp
next
  case (Cons a xs)
  have "P (g a) = P a" and "P a \<Longrightarrow> g a = a"
    using Cons.prems [of a] by (cases "g a = a"; auto)+
  then show ?case using Cons by auto
qed

lemma filter_filter_imp:
  "(\<And>x. x \<in> set xs \<Longrightarrow> P x \<Longrightarrow> Q x) \<Longrightarrow> filter P (filter Q xs) = filter P xs"
  by (induction xs) auto

lemma same_id_same_task:
  "distinct (map tID xs) \<Longrightarrow> x \<in> set xs \<Longrightarrow> y \<in> set xs \<Longrightarrow> tID x = tID y \<Longrightarrow> x = y"
  by (auto simp: distinct_map inj_on_def)

lemma DeleteProject_fst:
  "fst (DeleteProject e s i) = s \<or>
   (i \<in> set (map pID (projects s)) \<and> \<not> fault e 0 \<and>
    fst (DeleteProject e s i) =
      s\<lparr>projects := filter (\<lambda>p. pID p \<noteq> i) (projects s),
        tasks := filter (\<lambda>t. tProjectID t \<noteq> i) (tasks s)\<rparr>)"
  by (auto simp: DeleteProject_def deleteProject_def split: sum.splits if_splits)

lemma DeleteTask_fst:
  "fst (DeleteTask e s i) = s \<or>
   (\<not> fault e 0 \<and> fst (DeleteTask e s i) = s\<lparr>tasks := filter (\<lambda>t. tID t \<noteq> i) (tasks s)\<rparr>)"
  by (auto simp: DeleteTask_def deleteTask_def split: sum.splits if_splits)

lemma partition_CreateProject:
  "partition (fst (CreateProject e s name color)) pid st = partition s pid st"
  by (simp add: partition_def CreateProject_tasks)

lemma partition_UpdateProject:
  "partition (fst (UpdateProject e s i name color)) pid st = partition s pid st"
  by (simp add: partition_def UpdateProject_tasks)

lemma partition_DeleteProject:
  "i \<noteq> pid \<Longrightarrow> partition (fst (DeleteProject e s i)) pid st = partition s pid st"
proof -
  assume ne: "i \<noteq> pid"
  have "filter (\<lambda>t. tProjectID t = pid \<and> tStatus t = st) (filter (\<lambda>t. tProjectID t \<noteq> i) (tasks s)) =
        filter (\<lambda>t. tProjectID t = pid \<and> tStatus t = st) (tasks s)"
    using ne by (intro filter_filter_imp) auto
  then show ?thesis
    using DeleteProject_fst [of e s i] by (auto simp: partition_def simp del: filter_filter)
qed

lemma partition_CreateTask:
  "\<not> (tProjectID t = pid \<and> createStatus t = st) \<Longrightarrow>
   partition (fst (CreateTask e s t)) pid st = partition s pid st"
  using CreateTask_fst [of e s t] by (auto simp: partition_def)

lemma partition_UpdateTask:
  assumes c: "constraints s" and out: "i \<notin> set (map tID (partition s pid st))"
    and arrive: "\<And>cur. GetTask False s i = Inr cur \<Longrightarrow> \<not> (tProjectID cur = pid \<and> newStatus cur ch = st)"
  shows "partition (fst (UpdateTask e s i ch)) pid st = partition s pid st"
  using UpdateTask_fst [of e s i ch]
proof (elim disjE exE conjE)
  assume "fst (UpdateTask e s i ch) = s"
  then show ?thesis by simp
next
  fix cur pos
  let ?g = "\<lambda>t. if tID t = i
                 then t\<lparr>tTitle := newTitle cur ch, tDescription := newDescription cur ch,
                        tStatus := newStatus cur ch, tPosition := pos, tUpdatedAt := now e\<rparr>
                 else t"
  assume g: "GetTask False s i = Inr cur"
    and eq: "fst (UpdateTask e s i ch) = s\<lparr>tasks := map ?g (tasks s)\<rparr>"
  have cur: "cur \<in> set (tasks s)" "tID cur = i" using GetTask_mem [OF g] by auto
  have d: "distinct (map tID (tasks s))" using c by (simp add: constraints_def)
  have "filter (\<lambda>t. tProjectID t = pid \<and> tStatus t = st) (map ?g (tasks s)) =
        filter (\<lambda>t. tProjectID t = pid \<and> tStatus t = st) (tasks s)"
  proof (rule filter_map_untouched)
    fix x assume x: "x \<in> set (tasks s)" and ne: "?g x \<noteq> x"
    then have "tID x = i" by (auto split: if_splits)
    then have "x = cur" using same_id_same_task [OF d x cur(1)] cur(2) by simp
    moreover have "\<not> (tProjectID cur = pid \<and> tStatus cur = st)"
      using out cur by (auto simp: partition_def)
    ultimately show "\<not> (tProjectID x = pid \<and> tStatus x = st) \<and>
                     \<not> (tProjectID (?g x) = pid \<and> tStatus (?g x) = st)"
      using arrive [OF g] cur(2) by auto
  qed
  then show ?thesis by (simp add: partition_def eq)
qed

lemma partition_DeleteTask:
  "i \<notin> set (map tID (partition s pid st)) \<Longrightarrow>
   partition (fst (DeleteTask e s i)) pid st = partition s pid st"
proof -
  assume out: "i \<notin> set (map tID (partition s pid st))"
  have "filter (\<lambda>t. tProjectID t = pid \<and> tStatus t = st) (filter (\<lambda>t. tID t \<noteq> i) (tasks s)) =
        filter (\<lambda>t. tProjectID t = pid \<and> tStatus t = st) (tasks s)"
    using out by (intro filter_filter_imp) (auto simp: partition_def)
  then show ?thesis
    using DeleteTask_fst [of e s i] by (auto simp: partition_def simp del: filter_filter)
qed

lemma elsewhere_partition:
  "elsewhere pid st s s' \<Longrightarrow> constraints s \<Longrightarrow>
   constraints s' \<and> partition s' pid st = partition s pid st"
proof (induction rule: elsewhere.induct)
  case (e_same s)
  then show ?case by simp
next
  case (e_CreateProject s s' e name color)
  then show ?case by (simp add: CreateProject_constraints partition_CreateProject)
next
  case (e_UpdateProject s s' e ident name color)
  then show ?case by (simp add: UpdateProject_constraints partition_UpdateProject)
next
  case (e_DeleteProject s s' ident e)
  then show ?case by (simp add: DeleteProject_constraints partition_DeleteProject)
next
  case (e_CreateTask s s' t e)
  then show ?case by (simp add: CreateTask_constraints partition_CreateTask)
next
  case (e_UpdateTask s s' ident changes e)
  then have "partition (fst (UpdateTask e s' ident changes)) pid st = partition s' pid st"
    by (intro partition_UpdateTask) auto
  then show ?case using e_UpdateTask by (simp add: UpdateTask_constraints)
next
  case (e_DeleteTask s s' ident e)
  then show ?case by (simp add: DeleteTask_constraints partition_DeleteTask)
qed

subsection \<open>Trimming\<close>

lemma trimLeading_stop:
  assumes "\<not> asciiSpace c" and "\<And>e. e \<in> set encs \<Longrightarrow> e \<noteq> [] \<Longrightarrow> hd e \<noteq> c"
  shows "trimLeading encs (c # cs) = c # cs"
proof -
  have "find (\<lambda>e. e \<noteq> [] \<and> take (length e) (c # cs) = e) encs = None"
  proof (simp only: find_None_iff, intro notI, elim exE conjE)
    fix e assume e: "e \<in> set encs" "e \<noteq> []" "take (length e) (c # cs) = e"
    obtain x xs where "e = x # xs" using e(2) by (cases e) auto
    then have "hd e = c" using e(3) by simp
    then show False using assms(2) e by simp
  qed
  then show ?thesis using assms(1) by simp
qed

lemma utf8Space_heads:
  "e \<in> set utf8Space \<Longrightarrow> e \<noteq> [] \<and> 128 \<le> (of_char (hd e) :: nat) \<and> 128 \<le> (of_char (last e) :: nat)"
  by (auto simp: utf8Space_def)

lemma TrimSpace_plain:
  assumes "s \<noteq> []" "plain (hd s)" "plain (last s)"
  shows "TrimSpace s = s"
proof -
  obtain c cs where s: "s = c # cs" using assms(1) by (cases s) auto
  have "trimLeading utf8Space (c # cs) = c # cs"
  proof (rule trimLeading_stop)
    show "\<not> asciiSpace c" using assms(2) s by (simp add: plain_def)
    fix e assume "e \<in> set utf8Space" "e \<noteq> []"
    then have "128 \<le> (of_char (hd e) :: nat)" using utf8Space_heads by blast
    then show "hd e \<noteq> c" using assms(2) s by (auto simp: plain_def)
  qed
  then have l: "trimLeading utf8Space s = s" using s by simp
  obtain d ds where r: "rev s = d # ds" using assms(1) by (cases "rev s") auto
  then have d: "d = last s" using assms(1) by (metis hd_rev list.sel(1))
  have "trimLeading (map rev utf8Space) (d # ds) = d # ds"
  proof (rule trimLeading_stop)
    show "\<not> asciiSpace d" using assms(3) d by (simp add: plain_def)
    fix e assume "e \<in> set (map rev utf8Space)" "e \<noteq> []"
    then obtain e' where e': "e' \<in> set utf8Space" "e = rev e'" by auto
    then have "128 \<le> (of_char (last e') :: nat)" "e' \<noteq> []" using utf8Space_heads by blast+
    then have "128 \<le> (of_char (hd e) :: nat)" using e' by (simp add: hd_rev)
    then show "hd e \<noteq> d" using assms(3) d by (auto simp: plain_def)
  qed
  then show ?thesis using l r by (simp add: TrimSpace_def)
qed

lemma TrimSpace_Nil: "TrimSpace [] = []"
  by (simp add: TrimSpace_def)

subsection \<open>The sample board, evaluated\<close>

lemmas store_eval =
  CreateProject_def UpdateProject_def DeleteProject_def CreateTask_def UpdateTask_def DeleteTask_def
  GetProject_def GetTask_def nextPosition_def selectMaxPosition_def partition_def
  insertProject_def updateProject_def deleteProject_def insertTask_def updateTask_def deleteTask_def
  ListProjects_def ListTasks_def
  newTitle_def newDescription_def newStatus_def asString_def createStatus_def
  randomPaletteColor_def palette_def quiet_def migrate_def card_def ValidTaskStatuses_def
  TrimSpace_plain TrimSpace_Nil plain_def asciiSpace_def Let_def add64_def wrap64_def
  constraints_def statusesValid_def

lemma launch_eval:
  "CreateProject (quiet 10 0) migrate ''Launch'' [] =
     (\<lparr>projects = [launchRow], tasks = [], projectsSeq = 1, tasksSeq = 0\<rparr>, Inr launchRow)"
  by (simp add: store_eval launchRow_def)

lemma launch_is: "launch = \<lparr>projects = [launchRow], tasks = [], projectsSeq = 1, tasksSeq = 0\<rparr>"
  by (simp add: launch_def launch_eval)

lemma launchRow_sel: "pID launchRow = 1" "pName launchRow = ''Launch''" "pCreatedAt launchRow = 10"
  by (simp_all add: launchRow_def)

lemma board1_eval:
  "CreateTask (quiet 11 0) launch (card ''Write spec'' ''todo'') =
     (\<lparr>projects = [launchRow], tasks = [written], projectsSeq = 1, tasksSeq = 1\<rparr>, Inr written)"
  by (simp add: launch_is launchRow_sel store_eval written_def)

lemma board1_is:
  "board1 = \<lparr>projects = [launchRow], tasks = [written], projectsSeq = 1, tasksSeq = 1\<rparr>"
  by (simp add: board1_def board1_eval)

lemma board2_eval:
  "CreateTask (quiet 12 0) board1 (card ''Ship'' ''done'') =
     (\<lparr>projects = [launchRow], tasks = [written, shipped], projectsSeq = 1, tasksSeq = 2\<rparr>,
      Inr shipped)"
  by (simp add: board1_is launchRow_sel store_eval written_def shipped_def)

lemma board2_is:
  "board2 = \<lparr>projects = [launchRow], tasks = [written, shipped], projectsSeq = 1, tasksSeq = 2\<rparr>"
  by (simp add: board2_def board2_eval)

lemma board3_eval:
  "CreateTask (quiet 13 0) board2 (card ''Review'' ''bogus'') =
     (\<lparr>projects = [launchRow], tasks = [written, shipped, review], projectsSeq = 1, tasksSeq = 3\<rparr>,
      Inr review)"
  by (simp add: board2_is launchRow_sel store_eval written_def shipped_def review_def)

lemma board3_is:
  "board3 = \<lparr>projects = [launchRow], tasks = [written, shipped, review],
             projectsSeq = 1, tasksSeq = 3\<rparr>"
  by (simp add: board3_def board3_eval)

subsection \<open>The next position\<close>

lemma partition_CreateTask_Inr:
  assumes "constraints s" "CreateTask e s t = (s', Inr t')"
  shows "partition s' (tProjectID t) (createStatus t) = partition s (tProjectID t) (createStatus t) @ [t']"
proof -
  note r = CreateTask_Inr [OF assms]
  have "tProjectID t' = tProjectID t" "tStatus t' = createStatus t"
    by (subst r(2), simp)+
  then show ?thesis by (subst r(3)) (simp add: partition_def)
qed

lemma board4_eval:
  "UpdateTask (quiet 14 0) board3 3 toProgress =
     (\<lparr>projects = [launchRow], tasks = [written, shipped, moved], projectsSeq = 1, tasksSeq = 3\<rparr>,
      Inr moved)"
  by (simp add: board3_is store_eval toProgress_def written_def shipped_def review_def moved_def)

lemma board4_is:
  "board4 = \<lparr>projects = [launchRow], tasks = [written, shipped, moved],
             projectsSeq = 1, tasksSeq = 3\<rparr>"
  by (simp add: board4_def board4_eval)

lemma board5_eval:
  "UpdateTask (quiet 14 0) board3 3 (toLane ''done'') =
     (\<lparr>projects = [launchRow], tasks = [written, shipped, finished], projectsSeq = 1, tasksSeq = 3\<rparr>,
      Inr finished)"
  by (simp add: board3_is store_eval toLane_def written_def shipped_def review_def finished_def)

lemma board5_is:
  "board5 = \<lparr>projects = [launchRow], tasks = [written, shipped, finished],
             projectsSeq = 1, tasksSeq = 3\<rparr>"
  by (simp add: board5_def board5_eval)

lemma wrap64_ge: "x < 2 ^ 63 \<Longrightarrow> x \<le> wrap64 x"
proof (cases "- (2 ^ 63) \<le> x")
  case True
  assume "x < 2 ^ 63"
  then show ?thesis using True by (simp add: wrap64_id)
next
  case False
  have "0 \<le> (x + 2 ^ 63) mod (2 ^ 64 :: int)" by simp
  then show ?thesis using False unfolding wrap64_def by linarith
qed

lemma nextPosition_greater:
  assumes b: "belowMax s p st" and r: "nextPosition False s p st = Inr pos"
  shows "\<forall>u \<in> set (partition s p st). tPosition u < pos"
proof (cases "partition s p st = []")
  case True
  then show ?thesis by simp
next
  case False
  let ?m = "Max (set (map tPosition (partition s p st)))"
  have ne: "set (map tPosition (partition s p st)) \<noteq> {}" using False by simp
  have "?m \<in> set (map tPosition (partition s p st))" using ne by (intro Max_in) simp_all
  then have "?m < 2 ^ 63 - 1" using b by (auto simp: belowMax_def)
  then have w: "?m + 1 \<le> wrap64 (?m + 1)" by (intro wrap64_ge) simp
  have pos: "pos = wrap64 (?m + 1)"
    using r False by (simp add: nextPosition_Max add64_def)
  show ?thesis
  proof
    fix u assume "u \<in> set (partition s p st)"
    then have "tPosition u \<le> ?m" by (intro Max_ge) simp_all
    then show "tPosition u < pos" using w unfolding pos by linarith
  qed
qed


subsection \<open>The position after an update\<close>

lemma nextPosition_total: "\<exists>pos. nextPosition False s projectID status = Inr pos"
  by (simp add: nextPosition_Max)

lemma GetTask_after_updateTask:
  assumes "GetTask False s i = Inr cur" "updateTask False c s ti d st pos i = Inr s1"
  shows "GetTask False s1 i =
           Inr (cur\<lparr>tTitle := ti, tDescription := d, tStatus := st, tPosition := pos,
                    tUpdatedAt := c\<rparr>)"
proof -
  let ?f = "\<lambda>t. t\<lparr>tTitle := ti, tDescription := d, tStatus := st, tPosition := pos, tUpdatedAt := c\<rparr>"
  have s1: "tasks s1 = map (\<lambda>t. if tID t = i then ?f t else t) (tasks s)"
    using assms(2) by (auto simp: updateTask_def)
  have "find (\<lambda>x. tID x = i) (tasks s) = Some cur"
    using assms(1) by (auto simp: GetTask_def split: option.splits)
  then have "find (\<lambda>x. tID x = i) (tasks s1) = Some (?f cur)"
    unfolding s1 by (simp add: find_map_update [where k = tID])
  then show ?thesis by (simp add: GetTask_def)
qed

lemma UpdateTask_succeeds:
  assumes g: "GetTask False s i = Inr cur"
    and nf: "\<not> fault e 0" "\<not> fault e 1" "\<not> fault e 2" "\<not> fault e 3"
  shows "\<exists>s' t'. UpdateTask e s i ch = (s', Inr t')"
proof -
  have step: "\<exists>s' t'. UpdateTask e s i ch = (s', Inr t')"
    if p: "(if newStatus cur ch \<noteq> tStatus cur
            then nextPosition (fault e 1) s (tProjectID cur) (newStatus cur ch)
            else Inr (tPosition cur)) = Inr pos" for pos
  proof -
    obtain s1 where u: "updateTask False (now e) s (newTitle cur ch) (newDescription cur ch)
                          (newStatus cur ch) pos i = Inr s1"
      by (simp add: updateTask_def)
    note g1 = GetTask_after_updateTask [OF g u]
    have "UpdateTask e s i ch = (s1, GetTask False s1 i)"
      unfolding UpdateTask_def Let_def using g nf(1,3,4) by (simp only: p u sum.case)
    then show ?thesis using g1 by simp
  qed
  show ?thesis
  proof (cases "newStatus cur ch \<noteq> tStatus cur")
    case True
    obtain pos where "nextPosition False s (tProjectID cur) (newStatus cur ch) = Inr pos"
      using nextPosition_total by blast
    then show ?thesis using True nf(2) by (intro step [of pos]) simp
  next
    case False
    then show ?thesis by (intro step [of "tPosition cur"]) simp
  qed
qed

lemma sort_key_last:
  fixes f :: "'a \<Rightarrow> 'b::linorder"
  assumes "\<forall>y \<in> set (xs @ ys). f y < f x"
  shows "sort_key f (xs @ x # ys) = sort_key f (xs @ ys) @ [x]"
proof (rule properties_for_sort_key)
  show "mset (sort_key f (xs @ ys) @ [x]) = mset (xs @ x # ys)" by simp
  show "sorted (map f (sort_key f (xs @ ys) @ [x]))"
    using assms by (auto simp: sorted_append less_imp_le)
  fix k assume "k \<in> set (sort_key f (xs @ ys) @ [x])"
  then consider "k = x" | "k \<in> set (xs @ ys)" by auto
  then show "filter (\<lambda>z. f k = f z) (sort_key f (xs @ ys) @ [x]) = filter (\<lambda>z. f k = f z) (xs @ x # ys)"
  proof cases
    case 1
    have "filter (\<lambda>z. f x = f z) (sort_key f (xs @ ys)) = filter (\<lambda>z. f x = f z) (xs @ ys)"
      using sort_key_stable [of f "f x" "xs @ ys"] by (simp add: eq_commute)
    moreover have "filter (\<lambda>z. f x = f z) (xs @ ys) = []"
      using assms by (auto simp: filter_empty_conv)
    ultimately show ?thesis using 1 assms by (simp add: filter_empty_conv)
  next
    case 2
    with assms have "f k < f x" by blast
    then have ne: "f k \<noteq> f x" by simp
    have "filter (\<lambda>z. f k = f z) (sort_key f (xs @ ys)) = filter (\<lambda>z. f k = f z) (xs @ ys)"
      using sort_key_stable [of f "f k" "xs @ ys"] by (simp add: eq_commute)
    then show ?thesis using ne by simp
  qed
qed

lemma UpdateTask_appends:
  assumes c: "constraints s" and g: "GetTask False s i = Inr current"
    and r: "UpdateTask e s i ch = (s', Inr t')"
    and m: "newStatus current ch \<noteq> tStatus current"
    and b: "belowMax s (tProjectID current) (newStatus current ch)"
  shows "\<forall>u \<in> set (partition s (tProjectID current) (newStatus current ch)).
           tPosition u < tPosition t'"
    and "ListTasks e1 s (tProjectID current) = Inr before \<Longrightarrow>
         ListTasks e2 s' (tProjectID current) = Inr after \<Longrightarrow>
           filter (\<lambda>u. tStatus u = tStatus t') after =
             filter (\<lambda>u. tStatus u = tStatus t') before @ [t']"
proof -
  let ?p = "tProjectID current" and ?st = "newStatus current ch"
  let ?upd = "\<lambda>t. if tID t = i
                then t\<lparr>tTitle := newTitle current ch, tDescription := newDescription current ch,
                       tStatus := ?st, tPosition := tPosition t', tUpdatedAt := now e\<rparr>
                else t"
  from UpdateTask_Inr [OF r] g
  have pos: "nextPosition False s ?p ?st = Inr (tPosition t')"
    and t': "t' = current\<lparr>tTitle := newTitle current ch, tDescription := newDescription current ch,
               tStatus := ?st, tPosition := tPosition t', tUpdatedAt := now e\<rparr>"
    and s': "tasks s' = map ?upd (tasks s)"
    using m by auto
  have st: "tStatus t' = ?st" "tProjectID t' = ?p" by (subst t', simp)+
  show gt: "\<forall>u \<in> set (partition s ?p ?st). tPosition u < tPosition t'"
    using b pos by (rule nextPosition_greater)
  have f: "find (\<lambda>t. tID t = i) (tasks s) = Some current"
    using g by (simp add: GetTask_def split: option.splits)
  then have cur: "current \<in> set (tasks s)" "tID current = i"
    by (auto simp: find_Some_iff)
  from cur(1) obtain xs ys where sp: "tasks s = xs @ current # ys" by (auto dest: split_list)
  have d: "distinct (map tID (tasks s))" using c by (simp add: constraints_def)
  have nx: "\<forall>u \<in> set xs. tID u \<noteq> i" and ny: "\<forall>u \<in> set ys. tID u \<noteq> i"
    using d cur(2) unfolding sp by (auto simp: image_iff)
  have up: "tasks s' = xs @ t' # ys"
    unfolding s' sp using nx ny cur(2) t' by (simp cong: map_cong)
  let ?G = "filter (\<lambda>u. tStatus u = ?st) \<circ> filter (\<lambda>u. tProjectID u = ?p)"
  have part: "partition s ?p ?st = ?G xs @ ?G ys"
    unfolding partition_def sp using m by (auto simp: conj_commute)
  have less: "\<forall>y \<in> set (?G xs @ ?G ys). taskOrder y < taskOrder t'"
  proof
    fix y assume y: "y \<in> set (?G xs @ ?G ys)"
    then have "tPosition y < tPosition t'" using gt unfolding part by blast
    moreover have "tStatus y = tStatus t'" using y st by auto
    ultimately show "taskOrder y < taskOrder t'" by (simp add: taskOrder_def less_prod_def)
  qed
  assume l1: "ListTasks e1 s ?p = Inr before" and l2: "ListTasks e2 s' ?p = Inr after"
  have "filter (\<lambda>u. tStatus u = ?st) before = sort_key taskOrder (?G xs @ ?G ys)"
    using l1 m unfolding ListTasks_def sp by (auto simp: filter_sort split: if_splits)
  moreover have "filter (\<lambda>u. tStatus u = ?st) after = sort_key taskOrder (?G xs @ t' # ?G ys)"
    using l2 st unfolding ListTasks_def up by (auto simp: filter_sort split: if_splits)
  ultimately show "filter (\<lambda>u. tStatus u = tStatus t') after =
             filter (\<lambda>u. tStatus u = tStatus t') before @ [t']"
    using sort_key_last [OF less] unfolding st by simp
qed

subsection \<open>A status outside the enumeration\<close>

lemma createStatus_valid: "createStatus t \<in> ValidTaskStatuses"
  by (simp add: createStatus_def ValidTaskStatuses_def)

lemma CreateTask_succeeds:
  assumes c: "constraints s" and ti: "TrimSpace (tTitle t) \<noteq> []"
    and fk: "tProjectID t \<in> set (map pID (projects s))"
    and nf: "\<not> fault e 0" "\<not> fault e 1" "\<not> fault e 2"
  shows "\<exists>s' t'. CreateTask e s t = (s', Inr t')"
proof -
  obtain pos where np: "nextPosition False s (tProjectID t) (createStatus t) = Inr pos"
    using nextPosition_total by blast
  define row where "row = \<lparr>tID = tasksSeq s + 1, tProjectID = tProjectID t, tTitle = TrimSpace (tTitle t),
               tDescription = TrimSpace (tDescription t), tStatus = createStatus t,
               tPosition = pos, tCreatedAt = now e, tUpdatedAt = now e\<rparr>"
  define s1 where "s1 = s\<lparr>tasks := tasks s @ [row], tasksSeq := tasksSeq s + 1\<rparr>"
  have ins: "insertTask False (now e) s (tProjectID t) (TrimSpace (tTitle t))
               (TrimSpace (tDescription t)) (createStatus t) pos = Inr (s1, tasksSeq s + 1)"
    using fk by (simp add: insertTask_def Let_def s1_def row_def)
  have fresh: "\<forall>x\<in>set (tasks s). \<not> tID x = tasksSeq s + 1"
    using c by (fastforce simp: constraints_def)
  have "find (\<lambda>x. tID x = tasksSeq s + 1) (tasks s1) = Some row"
    unfolding s1_def using fresh by (simp add: find_snoc_new row_def)
  then have "GetTask False s1 (tasksSeq s + 1) = Inr row" by (simp add: GetTask_def)
  moreover have "CreateTask e s t = (s1, GetTask False s1 (tasksSeq s + 1))"
    unfolding CreateTask_def Let_def createStatus_def [symmetric]
    using ti nf by (simp only: np ins sum.case prod.case if_False)
  ultimately show ?thesis by simp
qed

lemma newStatus_ignore:
  assumes "asString changes ''status'' = Some v" "v \<notin> ValidTaskStatuses"
  shows "newStatus current changes = tStatus current"
    and "newStatus current (changes(''status'' := None)) = tStatus current"
    and "newTitle current (changes(''status'' := None)) = newTitle current changes"
    and "newDescription current (changes(''status'' := None)) = newDescription current changes"
  using assms by (simp_all add: newStatus_def newTitle_def newDescription_def asString_def)

subsection \<open>Listing the tasks of a project\<close>

lemma taskOrder_le: "taskOrder a \<le> taskOrder b \<longleftrightarrow> taskBefore a b"
  by (auto simp: taskOrder_def taskBefore_def less_eq_prod_def)

lemma sorted_taskOrder: "sorted (map taskOrder ts) \<longleftrightarrow> sorted_wrt taskBefore ts"
  by (simp add: sorted_map taskOrder_le)

lemma taskOrder_inj: "taskOrder a = taskOrder b \<Longrightarrow> tID a = tID b"
  by (simp add: taskOrder_def)

lemma distinct_taskOrder:
  assumes "distinct (map tID ts)"
  shows "distinct (map taskOrder ts)" and "inj_on taskOrder (set ts)"
proof -
  have i: "inj_on tID (set ts)" and d: "distinct ts" using assms by (simp_all add: distinct_map)
  show "inj_on taskOrder (set ts)"
    by (rule inj_onI) (meson i inj_onD taskOrder_inj)
  then show "distinct (map taskOrder ts)" using d by (simp add: distinct_map)
qed

lemma sorted_listing_unique:
  assumes d: "distinct (map tID ts)" and m: "mset us = mset ts"
    and s1: "sorted_wrt taskBefore ts" and s2: "sorted_wrt taskBefore us"
  shows "us = ts"
proof -
  have "mset (map tID us) = mset (map tID ts)" using m by simp
  then have d': "distinct (map tID us)" using d mset_eq_imp_distinct_iff by blast
  have set: "set us = set ts" using m by (rule mset_eq_setD)
  have "map taskOrder us = map taskOrder ts"
    using distinct_taskOrder(1) [OF d] distinct_taskOrder(1) [OF d'] s1 s2 set
    by (intro sorted_distinct_set_unique) (simp_all add: sorted_taskOrder)
  moreover have "inj_on taskOrder (set us \<union> set ts)"
    using distinct_taskOrder(2) [OF d] set by simp
  ultimately show ?thesis by (simp add: inj_on_map_eq_map)
qed

lemma status_order: "(''done'' :: string) < ''in_progress''" "(''in_progress'' :: string) < ''todo''"
  by simp_all

lemma trimLeading_spaces:
  "\<forall>c\<in>set l. asciiSpace c \<Longrightarrow> trimLeading encs (l @ xs) = trimLeading encs xs"
  by (induction l) simp_all

lemma trimLeading_Nil: "trimLeading encs [] = []"
  by simp

lemma trimLeading_plain:
  assumes "plain c"
  shows "trimLeading utf8Space (c # cs) = c # cs"
    and "trimLeading (map rev utf8Space) (c # cs) = c # cs"
proof -
  have a: "\<not> asciiSpace c" using assms by (simp add: plain_def)
  show "trimLeading utf8Space (c # cs) = c # cs"
  proof (rule trimLeading_stop [OF a])
    fix e assume "e \<in> set utf8Space" "e \<noteq> []"
    then have "128 \<le> (of_char (hd e) :: nat)" using utf8Space_heads by blast
    then show "hd e \<noteq> c" using assms by (auto simp: plain_def)
  qed
  show "trimLeading (map rev utf8Space) (c # cs) = c # cs"
  proof (rule trimLeading_stop [OF a])
    fix e assume "e \<in> set (map rev utf8Space)" "e \<noteq> []"
    then obtain e' where e': "e' \<in> set utf8Space" "e = rev e'" by auto
    then have "128 \<le> (of_char (last e') :: nat)" "e' \<noteq> []" using utf8Space_heads by blast+
    then have "128 \<le> (of_char (hd e) :: nat)" using e' by (simp add: hd_rev)
    then show "hd e \<noteq> c" using assms by (auto simp: plain_def)
  qed
qed

lemma TrimSpace_strip:
  assumes l: "\<forall>c\<in>set l. asciiSpace c" and r: "\<forall>c\<in>set r. asciiSpace c"
    and s: "s \<noteq> []" "plain (hd s)" "plain (last s)"
  shows "TrimSpace (l @ s @ r) = s"
proof -
  obtain c cs where c: "s = c # cs" using s(1) by (cases s) auto
  obtain d ds where d: "rev s = d # ds" using s(1) by (cases "rev s") auto
  then have dl: "d = last s" using s(1) by (metis hd_rev list.sel(1))
  have "trimLeading utf8Space (l @ s @ r) = trimLeading utf8Space (c # cs @ r)"
    using trimLeading_spaces [OF l] c by simp
  also have "\<dots> = c # cs @ r" by (rule trimLeading_plain(1)) (use s(2) c in simp)
  also have "\<dots> = s @ r" by (simp add: c)
  finally have 1: "trimLeading utf8Space (l @ s @ r) = s @ r" .
  have "trimLeading (map rev utf8Space) (rev r @ rev s) = trimLeading (map rev utf8Space) (d # ds)"
    using trimLeading_spaces [of "rev r"] r d by simp
  also have "\<dots> = d # ds" by (rule trimLeading_plain(2)) (simp add: dl s(3))
  also have "\<dots> = rev s" by (simp add: d)
  finally show ?thesis by (simp add: TrimSpace_def 1)
qed

lemma TrimSpace_spaces: "\<forall>c\<in>set l. asciiSpace c \<Longrightarrow> TrimSpace l = []"
  using trimLeading_spaces [of l _ "[]"] by (simp add: TrimSpace_def)

lemma TrimSpace_padded: "TrimSpace ''  Launch '' = ''Launch''" "TrimSpace ''   '' = []"
proof -
  have "TrimSpace (''  '' @ ''Launch'' @ '' '') = ''Launch''"
    by (rule TrimSpace_strip) (simp_all add: plain_def asciiSpace_def)
  then show "TrimSpace ''  Launch '' = ''Launch''" by simp
  show "TrimSpace ''   '' = []"
    by (rule TrimSpace_spaces) (simp add: asciiSpace_def)
qed

subsection \<open>Creating a project\<close>

lemma CreateProject_fst:
  "fst (CreateProject e s name color) = s \<or>
   (TrimSpace name \<noteq> [] \<and> TrimSpace name \<notin> set (map pName (projects s)) \<and> \<not> fault e 0 \<and>
    fst (CreateProject e s name color) =
      s\<lparr>projects := projects s @
           [\<lparr>pID = projectsSeq s + 1, pName = TrimSpace name,
             pColor = (if color = [] then randomPaletteColor e else color),
             pCreatedAt = now e, pUpdatedAt = now e\<rparr>],
         projectsSeq := projectsSeq s + 1\<rparr>)"
  by (auto simp: CreateProject_def insertProject_def Let_def split: sum.splits if_splits)

lemma CreateProject_Inr:
  assumes "CreateProject e s name color = (s1, Inr p)"
  shows "TrimSpace name \<noteq> []" and "TrimSpace name \<in> set (map pName (projects s1))"
    and "s1 = s\<lparr>projects := projects s @
           [\<lparr>pID = projectsSeq s + 1, pName = TrimSpace name,
             pColor = (if color = [] then randomPaletteColor e else color),
             pCreatedAt = now e, pUpdatedAt = now e\<rparr>],
         projectsSeq := projectsSeq s + 1\<rparr>"
  using assms
  by (auto simp: CreateProject_def insertProject_def Let_def split: sum.splits if_splits)

lemma reachable_boards:
  "reachable launch" "reachable board1" "reachable board2" "reachable board3" "reachable board4"
  unfolding launch_def board1_def board2_def board3_def board4_def
  by (intro reachable.intros)+

subsection \<open>Tasks and their project\<close>

lemma DeleteProject_Inr:
  assumes "DeleteProject e s i = (s', Inr ())"
  shows "i \<in> set (map pID (projects s))"
    and "s' = s\<lparr>projects := filter (\<lambda>p. pID p \<noteq> i) (projects s),
                tasks := filter (\<lambda>t. tProjectID t \<noteq> i) (tasks s)\<rparr>"
  using assms by (auto simp: DeleteProject_def deleteProject_def split: sum.splits if_splits)

subsection \<open>Errors and what is persisted\<close>

lemma UpdateProject_fst:
  "fst (UpdateProject e s i name color) = s \<or>
   (TrimSpace name \<noteq> [] \<and> \<not> fault e 0 \<and> i \<in> set (map pID (projects s)) \<and>
    TrimSpace name \<notin> set (map pName (filter (\<lambda>p. pID p \<noteq> i) (projects s))) \<and>
    fst (UpdateProject e s i name color) =
      s\<lparr>projects := map (\<lambda>p. if pID p = i
                               then p\<lparr>pName := TrimSpace name,
                                      pColor := (if color = [] then randomPaletteColor e else color),
                                      pUpdatedAt := now e\<rparr>
                               else p) (projects s)\<rparr>)"
  by (auto simp: UpdateProject_def updateProject_def Let_def split: sum.splits if_splits)











subsection \<open>Positions only grow\<close>






lemma brim_is:
  "brim = \<lparr>projects = [launchRow],
           tasks = [\<lparr>tID = 1, tProjectID = 1, tTitle = ''card'', tDescription = [],
                     tStatus = ''todo'', tPosition = 9223372036854775806,
                     tCreatedAt = 0, tUpdatedAt = 0\<rparr>,
                    \<lparr>tID = 2, tProjectID = 1, tTitle = ''card'', tDescription = [],
                     tStatus = ''todo'', tPosition = 9223372036854775807,
                     tCreatedAt = 0, tUpdatedAt = 0\<rparr>,
                    \<lparr>tID = 3, tProjectID = 1, tTitle = ''card'', tDescription = [],
                     tStatus = ''done'', tPosition = 9223372036854775806,
                     tCreatedAt = 0, tUpdatedAt = 0\<rparr>],
           projectsSeq = 1, tasksSeq = 3\<rparr>"
  by (simp add: brim_def spin_def spinTask_def)

lemma spin_0:
  "spin 0 =
     fst (CreateTask (quiet 0 0)
       (fst (CreateTask (quiet 0 0)
          (fst (CreateTask (quiet 0 0) launch (card ''card'' ''todo'')))
          (card ''card'' ''todo'')))
       (card ''card'' ''done''))"
  by (simp add: spin_def spinTask_def launch_is launchRow_sel store_eval)

lemma respin:
  assumes "n < 9223372036854775806"
  shows "respin n = spin (Suc n)"
proof -
  have w: "wrap64 (int n + 1) = int n + 1" "wrap64 (int n + 1 + 1) = int n + 2"
    "wrap64 (1 + int n) = 1 + int n" "wrap64 (2 + int n) = 2 + int n"
    "wrap64 (int n + 2) = int n + 2"
    using assms by (simp_all add: wrap64_def)
  consider "n mod 3 = 0" | "n mod 3 = 1" | "n mod 3 = 2" by linarith
  then show ?thesis
  proof cases
    case 1
    then have "Suc n mod 3 = 1" "(n + 2) mod 3 = 2" by presburger+
    then show ?thesis using 1
      by (simp add: respin_def spin_def spinTask_def toLane_def add64_def w
          UpdateTask_def GetTask_def nextPosition_def selectMaxPosition_def partition_def
          updateTask_def newTitle_def newDescription_def newStatus_def asString_def
          quiet_def ValidTaskStatuses_def Let_def)
  next
    case 2
    then have "Suc n mod 3 = 2" "(n + 2) mod 3 = 0" by presburger+
    then show ?thesis using 2
      by (simp add: respin_def spin_def spinTask_def toLane_def add64_def w
          UpdateTask_def GetTask_def nextPosition_def selectMaxPosition_def partition_def
          updateTask_def newTitle_def newDescription_def newStatus_def asString_def
          quiet_def ValidTaskStatuses_def Let_def)
  next
    case 3
    then have "Suc n mod 3 = 0" "(n + 2) mod 3 = 1" by presburger+
    then show ?thesis using 3
      by (simp add: respin_def spin_def spinTask_def toLane_def add64_def w
          UpdateTask_def GetTask_def nextPosition_def selectMaxPosition_def partition_def
          updateTask_def newTitle_def newDescription_def newStatus_def asString_def
          quiet_def ValidTaskStatuses_def Let_def)
  qed
qed

lemma reachable_spin: "n \<le> 9223372036854775806 \<Longrightarrow> reachable (spin n)"
proof (induction n)
  case 0
  have "reachable launch" by (rule reachable_boards)
  then show ?case unfolding spin_0 by (intro reachable.intros)
next
  case (Suc n)
  then have "reachable (spin n)" and n: "n < 9223372036854775806" by simp_all
  then have "reachable (respin n)" unfolding respin_def by (intro reachable.intros)
  then show ?case using respin [OF n] by simp
qed

lemma reachable_brim: "reachable brim"
  unfolding brim_def by (rule reachable_spin) simp

lemma tipped_eval:
  "UpdateTask (quiet 0 0) brim 3 (toLane ''todo'') =
     (\<lparr>projects = [launchRow],
       tasks = [\<lparr>tID = 1, tProjectID = 1, tTitle = ''card'', tDescription = [],
                 tStatus = ''todo'', tPosition = 9223372036854775806,
                 tCreatedAt = 0, tUpdatedAt = 0\<rparr>,
                \<lparr>tID = 2, tProjectID = 1, tTitle = ''card'', tDescription = [],
                 tStatus = ''todo'', tPosition = 9223372036854775807,
                 tCreatedAt = 0, tUpdatedAt = 0\<rparr>,
                landed],
       projectsSeq = 1, tasksSeq = 3\<rparr>, Inr landed)"
  by (simp add: brim_is store_eval toLane_def landed_def)

lemma tipped_is:
  "tipped = \<lparr>projects = [launchRow],
       tasks = [\<lparr>tID = 1, tProjectID = 1, tTitle = ''card'', tDescription = [],
                 tStatus = ''todo'', tPosition = 9223372036854775806,
                 tCreatedAt = 0, tUpdatedAt = 0\<rparr>,
                \<lparr>tID = 2, tProjectID = 1, tTitle = ''card'', tDescription = [],
                 tStatus = ''todo'', tPosition = 9223372036854775807,
                 tCreatedAt = 0, tUpdatedAt = 0\<rparr>,
                landed],
       projectsSeq = 1, tasksSeq = 3\<rparr>"
  by (simp add: tipped_def tipped_eval)

subsection \<open>Listing the projects\<close>

lemma precedes_mem: "precedes p q xs \<Longrightarrow> p \<in> set xs \<and> q \<in> set xs"
  by (induction xs) (auto split: if_splits)

lemma precedes_filter: "precedes p q (filter P ys) \<Longrightarrow> precedes p q ys"
proof (induction ys)
  case Nil
  then show ?case by simp
next
  case (Cons y ys)
  show ?case
  proof (cases "P y")
    case True
    then show ?thesis using Cons by (auto split: if_splits)
  next
    case False
    then have "precedes p q (filter P ys)" using Cons.prems by simp
    moreover from this have "p \<noteq> y" using precedes_mem [of p q "filter P ys"] False by auto
    ultimately show ?thesis using Cons.IH by simp
  qed
qed

lemma filter_precedes: "precedes p q xs \<Longrightarrow> P p \<Longrightarrow> P q \<Longrightarrow> precedes p q (filter P xs)"
  by (induction xs) (auto split: if_splits)

lemma sorted_precedes:
  "sorted (map f ys) \<Longrightarrow> p \<in> set ys \<Longrightarrow> q \<in> set ys \<Longrightarrow> f p < f q \<Longrightarrow> precedes p q ys"
  for f :: "'a \<Rightarrow> 'b::linorder"
  by (induction ys) (auto simp: not_less [symmetric])

lemma stable_precedes:
  assumes "precedes p q xs" "f p = f q"
  shows "precedes p q (sort_key f xs)"
proof -
  have "precedes p q (filter (\<lambda>y. f y = f p) xs)"
    using assms by (intro filter_precedes) simp_all
  then have "precedes p q (filter (\<lambda>y. f y = f p) (sort_key f xs))"
    by (simp add: sort_key_stable)
  then show ?thesis by (rule precedes_filter)
qed

lemma increasing_precedes:
  "sorted_wrt (<) (map k xs) \<Longrightarrow> p \<in> set xs \<Longrightarrow> q \<in> set xs \<Longrightarrow> k p < k q \<Longrightarrow> precedes p q xs"
  for k :: "'a \<Rightarrow> 'b::linorder"
  by (induction xs) (auto simp: not_less [symmetric])

lemma CreateTask_projects: "projects (fst (CreateTask e s t)) = projects s"
  using CreateTask_fst [of e s t] by auto

lemma DeleteTask_projects: "projects (fst (DeleteTask e s i)) = projects s"
  using DeleteTask_fst [of e s i] by auto

lemma reachable_idsIncrease: "reachable s \<Longrightarrow> idsIncrease s"
proof (induction rule: reachable.induct)
  case r_migrate
  show ?case by (simp add: idsIncrease_def migrate_def)
next
  case (r_CreateProject s e name color)
  have "\<forall>i \<in> set (map pID (projects s)). i \<le> projectsSeq s"
    using reachable_constraints [OF r_CreateProject.hyps] by (simp add: constraints_def)
  then show ?case using r_CreateProject.IH CreateProject_fst [of e s name color]
    by (auto simp: idsIncrease_def sorted_wrt_append)
next
  case (r_UpdateProject s e ident name color)
  then show ?case using UpdateProject_fst [of e s ident name color]
    by (elim disjE conjE) (simp_all add: idsIncrease_def map_key_update del: map_map)
next
  case (r_DeleteProject s e ident)
  then show ?case using DeleteProject_fst [of e s ident]
    by (auto simp: idsIncrease_def sorted_wrt_map sorted_wrt_filter)
next
  case (r_CreateTask s e t)
  then show ?case by (simp add: idsIncrease_def CreateTask_projects)
next
  case (r_UpdateTask s e ident changes)
  then show ?case by (simp add: idsIncrease_def UpdateTask_projects)
next
  case (r_DeleteTask s e ident)
  then show ?case by (simp add: idsIncrease_def DeleteTask_projects)
qed

lemma office_is:
  "office = \<lparr>projects = [launchRow, planRow, opsRow], tasks = [], projectsSeq = 3, tasksSeq = 0\<rparr>"
proof -
  have t: "TrimSpace ''Plan'' = ''Plan''" "TrimSpace ''Ops'' = ''Ops''"
    by (simp_all add: TrimSpace_plain plain_def asciiSpace_def)
  show ?thesis
    by (simp add: office_def launch_is launchRow_sel t CreateProject_def insertProject_def
        GetProject_def quiet_def Let_def planRow_def opsRow_def)
qed

lemma reachable_office: "reachable office"
  unfolding office_def using reachable_boards(1) by (intro reachable.intros)

lemma stepback_eval:
  "CreateProject (quiet 5 0) launch ''Plan'' ''#111111'' =
     (\<lparr>projects = [launchRow, earlyRow], tasks = [], projectsSeq = 2, tasksSeq = 0\<rparr>, Inr earlyRow)"
proof -
  have t: "TrimSpace ''Plan'' = ''Plan''"
    by (simp add: TrimSpace_plain plain_def asciiSpace_def)
  show ?thesis
    by (simp add: launch_is launchRow_sel t CreateProject_def insertProject_def
        GetProject_def quiet_def Let_def earlyRow_def)
qed

lemma stepback_is:
  "stepback = \<lparr>projects = [launchRow, earlyRow], tasks = [], projectsSeq = 2, tasksSeq = 0\<rparr>"
  by (simp add: stepback_def stepback_eval)

lemma reachable_stepback: "reachable stepback"
  unfolding stepback_def using reachable_boards(1) by (intro reachable.intros)

lemma CreateProject_row:
  assumes c: "constraints s" and r: "CreateProject e s name color = (s', Inr p')"
  shows "projects s' = projects s @ [p']" and "pCreatedAt p' = now e"
    and "\<forall>q \<in> set (projects s). pID q < pID p'"
proof -
  let ?row = "\<lparr>pID = projectsSeq s + 1, pName = TrimSpace name,
             pColor = (if color = [] then randomPaletteColor e else color),
             pCreatedAt = now e, pUpdatedAt = now e\<rparr>"
  have s': "s' = s\<lparr>projects := projects s @ [?row], projectsSeq := projectsSeq s + 1\<rparr>"
    by (rule CreateProject_Inr(3) [OF r])
  have le: "\<forall>q \<in> set (projects s). pID q \<le> projectsSeq s"
    using c by (simp add: constraints_def)
  then have "find (\<lambda>p. pID p = projectsSeq s + 1) (projects s @ [?row]) = Some ?row"
    by (intro find_snoc_new) auto
  moreover have "GetProject False s' (projectsSeq s + 1) = Inr p'"
    using r unfolding s'
    by (auto simp: CreateProject_def insertProject_def GetProject_def Let_def
        split: sum.splits if_splits option.splits)
  ultimately have p': "p' = ?row" unfolding s' by (simp add: GetProject_def)
  show "projects s' = projects s @ [p']" unfolding p' by (subst s') simp
  show "pCreatedAt p' = now e" unfolding p' by simp
  show "\<forall>q \<in> set (projects s). pID q < pID p'" unfolding p' using le by auto
qed

section \<open>The properties of the specification\<close>

subsection \<open>C1: The next position\<close>

text \<open>
  C1 (as stated, refuted). On the board \<open>brim\<close>, which the store can produce, the
  largest position of \<open>todo\<close> is the largest \<open>int64\<close>, and \<open>nextPosition\<close> returns
  the smallest \<open>int64\<close> there, not one plus the maximum.
\<close>

theorem nextPosition_wraps:
  "reachable brim \<and>
   map tPosition (partition brim 1 ''todo'') = [9223372036854775806, 9223372036854775807] \<and>
   Max (set (map tPosition (partition brim 1 ''todo''))) = 9223372036854775807 \<and>
   nextPosition False brim 1 ''todo'' = Inr (- 9223372036854775808) \<and>
   nextPosition False brim 1 ''todo'' \<noteq>
     Inr (Max (set (map tPosition (partition brim 1 ''todo''))) + 1)"
  using reachable_brim
  by (simp add: brim_is nextPosition_def selectMaxPosition_def partition_def add64_def wrap64_def)

text \<open>
  C1 (amended). \<open>nextPosition\<close> returns 0 when the partition \<open>(projectID, status)\<close>
  has no task, and otherwise the sum of the maximum position of its tasks and one as
  Go computes it on \<open>int64\<close>: one plus the maximum when the maximum is below the
  largest \<open>int64\<close>, and the smallest \<open>int64\<close> when the maximum is the largest.
  Consequently the first task created in an empty partition gets position 0 and the
  next one created there gets position 1, whatever the store does elsewhere in
  between.
\<close>

theorem nextPosition_appends:
  "nextPosition False s projectID status =
     Inr (if partition s projectID status = [] then 0
          else add64 (Max (set (map tPosition (partition s projectID status)))) 1) \<and>
   (partition s projectID status \<noteq> [] \<longrightarrow>
    Max (set (map tPosition (partition s projectID status))) \<in> {- (2 ^ 63) ..< 2 ^ 63 - 1} \<longrightarrow>
      nextPosition False s projectID status =
        Inr (Max (set (map tPosition (partition s projectID status))) + 1)) \<and>
   (partition s projectID status \<noteq> [] \<longrightarrow>
    Max (set (map tPosition (partition s projectID status))) = 2 ^ 63 - 1 \<longrightarrow>
      nextPosition False s projectID status = Inr (- (2 ^ 63))) \<and>
   (constraints s \<longrightarrow> tProjectID t = projectID \<longrightarrow> createStatus t = status \<longrightarrow>
    partition s projectID status = [] \<longrightarrow>
    CreateTask e s t = (s1, Inr t1) \<longrightarrow>
    elsewhere projectID status s1 s2 \<longrightarrow>
    tProjectID u = projectID \<longrightarrow> createStatus u = status \<longrightarrow>
    CreateTask e' s2 u = (s3, Inr t2) \<longrightarrow>
      tPosition t1 = 0 \<and> tPosition t2 = 1)"
proof (intro conjI impI)
  show "nextPosition False s projectID status =
     Inr (if partition s projectID status = [] then 0
          else add64 (Max (set (map tPosition (partition s projectID status)))) 1)"
    by (rule nextPosition_Max)
next
  assume "partition s projectID status \<noteq> []"
    and "Max (set (map tPosition (partition s projectID status))) \<in> {- (2 ^ 63) ..< 2 ^ 63 - 1}"
  then show "nextPosition False s projectID status =
        Inr (Max (set (map tPosition (partition s projectID status))) + 1)"
    by (simp add: nextPosition_Max add64_def wrap64_id)
next
  assume "partition s projectID status \<noteq> []"
    and "Max (set (map tPosition (partition s projectID status))) = 2 ^ 63 - 1"
  then show "nextPosition False s projectID status = Inr (- (2 ^ 63))"
    by (simp add: nextPosition_Max add64_def wrap64_def)
next
  assume c: "constraints s" and t: "tProjectID t = projectID" "createStatus t = status"
    and empty: "partition s projectID status = []"
    and first: "CreateTask e s t = (s1, Inr t1)"
    and between: "elsewhere projectID status s1 s2"
    and u: "tProjectID u = projectID" "createStatus u = status"
    and second: "CreateTask e' s2 u = (s3, Inr t2)"
  have "nextPosition False s projectID status = Inr (tPosition t1)"
    using CreateTask_Inr(1) [OF c first] t by simp
  then show "tPosition t1 = 0" using empty by (simp add: nextPosition_Max)
  then have p1: "partition s1 projectID status = [t1]" "map tPosition [t1] = [0]"
    using partition_CreateTask_Inr [OF c first] t empty by simp_all
  have c1: "constraints s1"
    using CreateTask_constraints [OF c, of e t] first by simp
  have c2: "constraints s2" and p2: "partition s2 projectID status = [t1]"
    using elsewhere_partition [OF between c1] p1 by simp_all
  have "nextPosition False s2 projectID status = Inr (tPosition t2)"
    using CreateTask_Inr(1) [OF c2 second] u by simp
  then show "tPosition t2 = 1"
    using p2 p1(2) by (simp add: nextPosition_Max add64_def wrap64_def)
qed

theorem nextPosition_appends_witness:
  "partition board1 1 ''todo'' \<noteq> [] \<and>
   Max (set (map tPosition (partition board1 1 ''todo''))) \<in> {- (2 ^ 63) ..< 2 ^ 63 - 1} \<and>
   nextPosition False board1 1 ''todo'' = Inr 1 \<and>
   constraints launch \<and> partition launch 1 ''todo'' = [] \<and>
   CreateTask (quiet 11 0) launch (card ''Write spec'' ''todo'') = (board1, Inr written) \<and>
   elsewhere 1 ''todo'' board1 board2 \<and>
   createStatus (card ''Review'' ''bogus'') = ''todo'' \<and>
   CreateTask (quiet 13 0) board2 (card ''Review'' ''bogus'') = (board3, Inr review) \<and>
   tPosition written = 0 \<and> tPosition review = 1 \<and>
   partition brim 1 ''todo'' \<noteq> [] \<and>
   Max (set (map tPosition (partition brim 1 ''todo''))) = 2 ^ 63 - 1 \<and>
   nextPosition False brim 1 ''todo'' = Inr (- (2 ^ 63))"
proof -
  let ?t = "card ''Write spec'' ''todo''" and ?u = "card ''Review'' ''bogus''"
  have k: "partition brim 1 ''todo'' \<noteq> []"
    "Max (set (map tPosition (partition brim 1 ''todo''))) = 2 ^ 63 - 1"
    by (simp_all add: brim_is partition_def)
  have w: "nextPosition False brim 1 ''todo'' = Inr (- (2 ^ 63))"
    using nextPosition_appends [of brim 1 "''todo''"] k by blast
  have p: "partition board1 1 ''todo'' = [written]" "tPosition written = 0"
    by (simp_all add: board1_is partition_def written_def)
  have h1: "partition board1 1 ''todo'' \<noteq> []"
    and h2: "Max (set (map tPosition (partition board1 1 ''todo''))) \<in> {- (2 ^ 63) ..< 2 ^ 63 - 1}"
    by (simp_all add: p)
  have h3: "constraints launch" and h4: "partition launch 1 ''todo'' = []"
    by (simp_all add: launch_is launchRow_sel constraints_def partition_def)
  have h5: "tProjectID ?t = 1" "createStatus ?t = ''todo''" "tProjectID ?u = 1" "createStatus ?u = ''todo''"
    by (simp_all add: card_def createStatus_def ValidTaskStatuses_def)
  have h6: "CreateTask (quiet 11 0) launch ?t = (board1, Inr written)"
    by (simp add: board1_is board1_eval)
  have "elsewhere 1 ''todo'' board1 (fst (CreateTask (quiet 12 0) board1 (card ''Ship'' ''done'')))"
    by (rule e_CreateTask [OF e_same]) (simp add: card_def createStatus_def ValidTaskStatuses_def)
  then have h7: "elsewhere 1 ''todo'' board1 board2" by (simp add: board2_def)
  have h8: "CreateTask (quiet 13 0) board2 ?u = (board3, Inr review)"
    by (simp add: board3_is board3_eval)
  have a: "nextPosition False board1 1 ''todo'' =
        Inr (Max (set (map tPosition (partition board1 1 ''todo''))) + 1)"
    using nextPosition_appends [of board1 1 "''todo''"] h1 h2 by blast
  have b: "tPosition written = 0 \<and> tPosition review = 1"
    using nextPosition_appends [of launch 1 "''todo''" ?t "quiet 11 0" board1 written board2 ?u "quiet 13 0" board3 review]
      h3 h4 h5 h6 h7 h8 by blast
  show ?thesis using a b h1 h2 h3 h4 h5 h6 h7 h8 k w by (simp add: p)
qed

subsection \<open>C2: The position after an update\<close>

text \<open>
  C2 (as stated, refuted). On the board \<open>brim\<close>, which the store can produce, the
  card in \<open>done\<close> is moved to \<open>todo\<close>, whose largest position is the largest
  \<open>int64\<close>. Its position is recomputed, to the smallest \<open>int64\<close>, and \<open>ListTasks\<close>
  then shows it before the two cards that were in \<open>todo\<close>: at the head of the column,
  not at its end.
\<close>

theorem move_lands_first:
  "reachable brim \<and> constraints brim \<and>
   map tStatus (tasks brim) = [''todo'', ''todo'', ''done''] \<and>
   UpdateTask (quiet 0 0) brim 3 (toLane ''todo'') = (tipped, Inr landed) \<and>
   tStatus landed = ''todo'' \<and> tPosition landed = - 9223372036854775808 \<and>
   map tID (partition brim 1 ''todo'') = [1, 2] \<and>
   ListTasks (quiet 0 0) tipped 1 = Inr (landed # partition brim 1 ''todo'')"
proof -
  have t: "UpdateTask (quiet 0 0) brim 3 (toLane ''todo'') = (tipped, Inr landed)"
    by (simp add: tipped_is tipped_eval)
  have l: "ListTasks (quiet 0 0) tipped 1 = Inr (landed # partition brim 1 ''todo'')"
    by (simp add: tipped_is brim_is ListTasks_def partition_def quiet_def
        taskOrder_def landed_def less_eq_prod_def)
  show ?thesis
    using reachable_brim reachable_constraints [OF reachable_brim] t l
    by (simp add: brim_is partition_def landed_def)
qed

text \<open>
  C2 (amended). For a task that exists, \<open>UpdateTask\<close> succeeds when no round trip
  fails, and whenever it succeeds the row it returns, which is the row now stored, has
  the resolved status; its position is the value of \<open>nextPosition\<close> for the task's
  project and the resolved status exactly when that status differs from the current
  one, and the current position otherwise. As long as the positions of the
  destination column are below the largest \<open>int64\<close>, the move appends the task to the
  end of that column: its new position is above every position of the column, and
  the column as \<open>ListTasks\<close> returns it afterwards is the column as it was returned
  before, followed by the task.
\<close>

theorem UpdateTask_position:
  "GetTask False s ident = Inr current \<longrightarrow>
     (\<not> fault e 0 \<and> \<not> fault e 1 \<and> \<not> fault e 2 \<and> \<not> fault e 3 \<longrightarrow>
        (\<exists>s' t'. UpdateTask e s ident changes = (s', Inr t'))) \<and>
     (UpdateTask e s ident changes = (s', Inr t') \<longrightarrow>
        GetTask False s' ident = Inr t' \<and>
        tStatus t' = newStatus current changes \<and>
        (if newStatus current changes \<noteq> tStatus current
         then nextPosition False s (tProjectID current) (newStatus current changes) =
                Inr (tPosition t')
         else tPosition t' = tPosition current) \<and>
        (newStatus current changes \<noteq> tStatus current \<longrightarrow> constraints s \<longrightarrow>
         belowMax s (tProjectID current) (newStatus current changes) \<longrightarrow>
           (\<forall>u \<in> set (partition s (tProjectID current) (newStatus current changes)).
              tPosition u < tPosition t') \<and>
           (ListTasks e1 s (tProjectID current) = Inr before \<longrightarrow>
            ListTasks e2 s' (tProjectID current) = Inr after \<longrightarrow>
              filter (\<lambda>u. tStatus u = tStatus t') after =
                filter (\<lambda>u. tStatus u = tStatus t') before @ [t'])))"
proof (intro impI conjI)
  assume g: "GetTask False s ident = Inr current"
  {
    assume "\<not> fault e 0 \<and> \<not> fault e 1 \<and> \<not> fault e 2 \<and> \<not> fault e 3"
    then show "\<exists>s' t'. UpdateTask e s ident changes = (s', Inr t')"
      using UpdateTask_succeeds [OF g] by blast
  }
  assume r: "UpdateTask e s ident changes = (s', Inr t')"
  note u = UpdateTask_Inr_current [OF r g]
  show "GetTask False s' ident = Inr t'" by (rule u(1))
  show "tStatus t' = newStatus current changes" by (rule u(2))
  show "if newStatus current changes \<noteq> tStatus current
         then nextPosition False s (tProjectID current) (newStatus current changes) =
                Inr (tPosition t')
         else tPosition t' = tPosition current"
    by (rule u(3))
  assume m: "newStatus current changes \<noteq> tStatus current" and c: "constraints s"
    and b: "belowMax s (tProjectID current) (newStatus current changes)"
  note a = UpdateTask_appends [OF c g r m b]
  show "\<forall>u \<in> set (partition s (tProjectID current) (newStatus current changes)).
              tPosition u < tPosition t'"
    by (rule a(1))
  assume "ListTasks e1 s (tProjectID current) = Inr before"
    and "ListTasks e2 s' (tProjectID current) = Inr after"
  then show "filter (\<lambda>u. tStatus u = tStatus t') after =
                filter (\<lambda>u. tStatus u = tStatus t') before @ [t']"
    by (rule a(2))
qed

theorem UpdateTask_position_witness:
  "GetTask False board3 3 = Inr review \<and>
   UpdateTask (quiet 14 0) board3 3 (toLane ''done'') = (board5, Inr finished) \<and>
   newStatus review (toLane ''done'') = ''done'' \<and> tStatus review = ''todo'' \<and>
   constraints board3 \<and> belowMax board3 1 ''done'' \<and>
   partition board3 1 ''done'' = [shipped] \<and>
   ListTasks (quiet 15 0) board3 1 = Inr [shipped, written, review] \<and>
   ListTasks (quiet 15 0) board5 1 = Inr [shipped, finished, written] \<and>
   tStatus finished = ''done'' \<and>
   nextPosition False board3 1 ''done'' = Inr (tPosition finished) \<and>
   tPosition shipped < tPosition finished \<and>
   filter (\<lambda>u. tStatus u = ''done'') [shipped, finished, written] =
     filter (\<lambda>u. tStatus u = ''done'') [shipped, written, review] @ [finished] \<and>
   GetTask False board5 3 = Inr finished"
proof -
  have h1: "GetTask False board3 3 = Inr review"
    by (simp add: board3_is GetTask_def written_def shipped_def review_def)
  have h2: "UpdateTask (quiet 14 0) board3 3 (toLane ''done'') = (board5, Inr finished)"
    by (simp add: board5_is board5_eval)
  have h3: "newStatus review (toLane ''done'') = ''done''" "tStatus review = ''todo''"
    "tProjectID review = 1"
    by (simp_all add: newStatus_def asString_def toLane_def ValidTaskStatuses_def review_def)
  have h4: "constraints board3" using reachable_boards(4) by (rule reachable_constraints)
  have h5: "partition board3 1 ''done'' = [shipped]"
    by (simp add: board3_is partition_def written_def shipped_def review_def)
  have h6: "belowMax board3 1 ''done''" by (simp add: belowMax_def h5 shipped_def)
  have h7: "ListTasks (quiet 15 0) board3 1 = Inr [shipped, written, review]"
    by (simp add: board3_is ListTasks_def quiet_def taskOrder_def written_def shipped_def
        review_def less_eq_prod_def)
  have h8: "ListTasks (quiet 15 0) board5 1 = Inr [shipped, finished, written]"
    by (simp add: board5_is ListTasks_def quiet_def taskOrder_def written_def shipped_def
        finished_def less_eq_prod_def)
  have sel: "tStatus written = ''todo''" "tStatus shipped = ''done''" "tStatus finished = ''done''"
    "tPosition shipped = 0" "tPosition finished = 1"
    by (simp_all add: written_def shipped_def finished_def)
  have "GetTask False board5 3 = Inr finished \<and> tStatus finished = newStatus review (toLane ''done'') \<and>
        (if newStatus review (toLane ''done'') \<noteq> tStatus review
         then nextPosition False board3 (tProjectID review) (newStatus review (toLane ''done'')) =
                Inr (tPosition finished)
         else tPosition finished = tPosition review) \<and>
        (\<forall>u \<in> set (partition board3 (tProjectID review) (newStatus review (toLane ''done''))).
              tPosition u < tPosition finished) \<and>
        filter (\<lambda>u. tStatus u = tStatus finished) [shipped, finished, written] =
          filter (\<lambda>u. tStatus u = tStatus finished) [shipped, written, review] @ [finished]"
    using UpdateTask_position [where s = board3 and ident = 3 and current = review
        and e = "quiet 14 0" and changes = "toLane ''done''" and s' = board5 and t' = finished
        and ?e1.0 = "quiet 15 0" and ?e2.0 = "quiet 15 0" and before = "[shipped, written, review]"
        and after = "[shipped, finished, written]"]
      h1 h2 h3 h4 h6 h7 h8
    by (simp add: sel)
  then show ?thesis using h1 h2 h3 h4 h5 h6 h7 h8 sel by simp
qed

subsection \<open>C3: Positions only grow\<close>




subsection \<open>C4: A status outside the enumeration\<close>

text \<open>
  C4. A status outside the enumeration given to \<open>CreateTask\<close> is the same call as
  with \<open>todo\<close>, so it is no error and the row is stored with \<open>todo\<close>; every
  row \<open>CreateTask\<close> returns has a status of the enumeration. Given to \<open>UpdateTask\<close>,
  it is the same call as without a status in the patch: the task keeps its status
  and its position. In a database the store has produced, every status stored and
  every status \<open>UpdateTask\<close> returns is of the enumeration.
\<close>

theorem invalid_status:
  "(tStatus t \<notin> ValidTaskStatuses \<longrightarrow>
      CreateTask e s t = CreateTask e s (t\<lparr>tStatus := ''todo''\<rparr>)) \<and>
   (constraints s \<longrightarrow> TrimSpace (tTitle t) \<noteq> [] \<longrightarrow>
    tProjectID t \<in> set (map pID (projects s)) \<longrightarrow>
    \<not> fault e 0 \<and> \<not> fault e 1 \<and> \<not> fault e 2 \<longrightarrow>
      (\<exists>s' t'. CreateTask e s t = (s', Inr t'))) \<and>
   (constraints s \<longrightarrow> CreateTask e s t = (s', Inr t') \<longrightarrow>
      tStatus t' \<in> ValidTaskStatuses \<and> t' \<in> set (tasks s') \<and>
      (tStatus t \<notin> ValidTaskStatuses \<longrightarrow> tStatus t' = ''todo'')) \<and>
   (asString changes ''status'' = Some v \<longrightarrow> v \<notin> ValidTaskStatuses \<longrightarrow>
      UpdateTask e s ident changes = UpdateTask e s ident (changes(''status'' := None)) \<and>
      (UpdateTask e s ident changes = (s', Inr t') \<longrightarrow>
       GetTask False s ident = Inr current \<longrightarrow>
         tStatus t' = tStatus current \<and> tPosition t' = tPosition current)) \<and>
   (reachable s \<longrightarrow>
      statusesValid s \<and> statusesValid (fst (UpdateTask e s ident changes)) \<and>
      statusesValid (fst (CreateTask e s t)) \<and>
      (UpdateTask e s ident changes = (s', Inr t') \<longrightarrow> tStatus t' \<in> ValidTaskStatuses))"
proof (intro conjI impI)
  assume "tStatus t \<notin> ValidTaskStatuses"
  then show "CreateTask e s t = CreateTask e s (t\<lparr>tStatus := ''todo''\<rparr>)"
    by (simp add: CreateTask_def ValidTaskStatuses_def Let_def cong: sum.case_cong)
next
  assume "constraints s" "TrimSpace (tTitle t) \<noteq> []" "tProjectID t \<in> set (map pID (projects s))"
    "\<not> fault e 0 \<and> \<not> fault e 1 \<and> \<not> fault e 2"
  then show "\<exists>s' t'. CreateTask e s t = (s', Inr t')"
    using CreateTask_succeeds by blast
next
  assume c: "constraints s" and r: "CreateTask e s t = (s', Inr t')"
  note i = CreateTask_Inr [OF c r]
  have st: "tStatus t' = createStatus t" by (subst i(2)) simp
  show "tStatus t' \<in> ValidTaskStatuses" using st createStatus_valid by simp
  show "t' \<in> set (tasks s')" by (subst i(3)) simp
  show "tStatus t' = ''todo''" if "tStatus t \<notin> ValidTaskStatuses"
    using st that by (simp add: createStatus_def)
next
  assume a: "asString changes ''status'' = Some v" "v \<notin> ValidTaskStatuses"
  note n = newStatus_ignore [OF a]
  have "asString (changes(''status'' := None)) ''status'' = None" by (simp add: asString_def)
  show "UpdateTask e s ident changes = UpdateTask e s ident (changes(''status'' := None))"
    unfolding UpdateTask_def Let_def n ..
  show "tStatus t' = tStatus current" "tPosition t' = tPosition current"
    if r: "UpdateTask e s ident changes = (s', Inr t')" and g: "GetTask False s ident = Inr current"
    using UpdateTask_Inr_current(2,3) [OF r g] n(1) [of current] by simp_all
next
  assume rs: "reachable s"
  then show "statusesValid s" by (rule reachable_statusesValid)
  then show "statusesValid (fst (UpdateTask e s ident changes))"
    and "statusesValid (fst (CreateTask e s t))"
    by (simp_all add: UpdateTask_statusesValid CreateTask_statusesValid)
  show "tStatus t' \<in> ValidTaskStatuses" if r: "UpdateTask e s ident changes = (s', Inr t')"
  proof -
    have "statusesValid s'"
      using UpdateTask_statusesValid [OF reachable_statusesValid [OF rs], of e ident changes] r
      by simp
    moreover have "t' \<in> set (tasks s')"
      using UpdateTask_Inr [OF r] GetTask_mem by blast
    ultimately show ?thesis by (simp add: statusesValid_def)
  qed
qed

theorem invalid_status_witness:
  "tStatus (card ''Review'' ''bogus'') \<notin> ValidTaskStatuses \<and>
   constraints board2 \<and> TrimSpace (tTitle (card ''Review'' ''bogus'')) \<noteq> [] \<and>
   tProjectID (card ''Review'' ''bogus'') \<in> set (map pID (projects board2)) \<and>
   CreateTask (quiet 13 0) board2 (card ''Review'' ''bogus'') = (board3, Inr review) \<and>
   CreateTask (quiet 13 0) board2 (card ''Review'' ''todo'') = (board3, Inr review) \<and>
   tStatus review = ''todo'' \<and> review \<in> set (tasks board3) \<and>
   asString bogusStatus ''status'' = Some ''bogus'' \<and> ''bogus'' \<notin> ValidTaskStatuses \<and>
   GetTask False board3 3 = Inr review \<and>
   UpdateTask (quiet 14 0) board3 3 bogusStatus =
     (board3\<lparr>tasks := [written, shipped, review\<lparr>tUpdatedAt := 14\<rparr>]\<rparr>,
      Inr (review\<lparr>tUpdatedAt := 14\<rparr>)) \<and>
   tStatus (review\<lparr>tUpdatedAt := 14\<rparr>) = tStatus review \<and>
   tPosition (review\<lparr>tUpdatedAt := 14\<rparr>) = tPosition review \<and>
   reachable board3 \<and> statusesValid board3"
proof -
  let ?t = "card ''Review'' ''bogus''"
  let ?s' = "board3\<lparr>tasks := [written, shipped, review\<lparr>tUpdatedAt := 14\<rparr>]\<rparr>"
  let ?t' = "review\<lparr>tUpdatedAt := 14\<rparr>"
  have h1: "tStatus ?t \<notin> ValidTaskStatuses" "''bogus'' \<notin> ValidTaskStatuses"
    by (simp_all add: card_def ValidTaskStatuses_def)
  have h2: "constraints board2" "TrimSpace (tTitle ?t) \<noteq> []"
    "tProjectID ?t \<in> set (map pID (projects board2))"
    by (simp_all add: board2_is launchRow_sel written_def shipped_def store_eval)
  have h3: "CreateTask (quiet 13 0) board2 ?t = (board3, Inr review)"
    by (simp add: board3_is board3_eval)
  have h4: "asString bogusStatus ''status'' = Some ''bogus''"
    by (simp add: asString_def bogusStatus_def)
  have h5: "GetTask False board3 3 = Inr review"
    by (simp add: board3_is GetTask_def written_def shipped_def review_def)
  have h6: "UpdateTask (quiet 14 0) board3 3 bogusStatus = (?s', Inr ?t')"
    by (simp add: board3_is store_eval bogusStatus_def written_def shipped_def review_def)
  have "reachable (fst (CreateTask (quiet 13 0) (fst (CreateTask (quiet 12 0)
          (fst (CreateTask (quiet 11 0) (fst (CreateProject (quiet 10 0) migrate ''Launch'' []))
             (card ''Write spec'' ''todo''))) (card ''Ship'' ''done''))) ?t))"
    by (intro reachable.intros)
  then have h7: "reachable board3"
    by (simp only: launch_def [symmetric] board1_def [symmetric] board2_def [symmetric]
        board3_def [symmetric])
  note w = invalid_status [of ?t "quiet 13 0" board2 board3 review bogusStatus "''bogus''" 3 review]
  have a: "CreateTask (quiet 13 0) board2 ?t = CreateTask (quiet 13 0) board2 (?t\<lparr>tStatus := ''todo''\<rparr>)"
    using w h1 by blast
  have b: "tStatus review \<in> ValidTaskStatuses \<and> review \<in> set (tasks board3) \<and> tStatus review = ''todo''"
    using w h1 h2 h3 by blast
  note w' = invalid_status [of ?t "quiet 14 0" board3 ?s' ?t' bogusStatus "''bogus''" 3 review]
  have c: "tStatus ?t' = tStatus review \<and> tPosition ?t' = tPosition review"
    using w' h1 h4 h5 h6 by blast
  have d: "statusesValid board3" using w' h7 by blast
  have e: "?t\<lparr>tStatus := ''todo''\<rparr> = card ''Review'' ''todo''" by (simp add: card_def)
  show ?thesis using a b c d e h1 h2 h3 h4 h5 h6 h7 by simp
qed

subsection \<open>C5: Listing the tasks of a project\<close>

text \<open>
  C5. When its round trip does not fail, \<open>ListTasks\<close> returns exactly the rows of
  \<open>tasks\<close> whose project is the given one, each as often as the table holds it,
  in the order of status, then position, then id. With ids being a primary key this
  is the only such arrangement of these rows: the answer is determined.
\<close>

theorem ListTasks_sorted:
  "\<not> fault e 0 \<longrightarrow>
     (\<exists>ts. ListTasks e s projectID = Inr ts \<and>
        mset ts = filter_mset (\<lambda>t. tProjectID t = projectID) (mset (tasks s)) \<and>
        sorted_wrt taskBefore ts \<and>
        (distinct (map tID (tasks s)) \<longrightarrow>
           (\<forall>us. mset us = mset ts \<and> sorted_wrt taskBefore us \<longrightarrow> us = ts)))"
proof
  assume nf: "\<not> fault e 0"
  define ts where "ts = sort_key taskOrder (filter (\<lambda>t. tProjectID t = projectID) (tasks s))"
  have r: "ListTasks e s projectID = Inr ts" using nf by (simp add: ListTasks_def ts_def)
  have m: "mset ts = filter_mset (\<lambda>t. tProjectID t = projectID) (mset (tasks s))"
    by (simp add: ts_def)
  have so: "sorted_wrt taskBefore ts"
    unfolding sorted_taskOrder [symmetric] ts_def by (rule sorted_sort_key)
  have u: "\<forall>us. mset us = mset ts \<and> sorted_wrt taskBefore us \<longrightarrow> us = ts"
    if d: "distinct (map tID (tasks s))"
  proof -
    have "distinct (map tID (filter (\<lambda>t. tProjectID t = projectID) (tasks s)))"
      using d by (rule distinct_map_filter)
    moreover have "mset (map tID ts) = mset (map tID (filter (\<lambda>t. tProjectID t = projectID) (tasks s)))"
      by (simp add: ts_def)
    ultimately have "distinct (map tID ts)" using mset_eq_imp_distinct_iff by blast
    then show ?thesis using sorted_listing_unique so by blast
  qed
  show "\<exists>ts. ListTasks e s projectID = Inr ts \<and>
        mset ts = filter_mset (\<lambda>t. tProjectID t = projectID) (mset (tasks s)) \<and>
        sorted_wrt taskBefore ts \<and>
        (distinct (map tID (tasks s)) \<longrightarrow>
           (\<forall>us. mset us = mset ts \<and> sorted_wrt taskBefore us \<longrightarrow> us = ts))"
    using r m so u by blast
qed

theorem ListTasks_sorted_witness:
  "\<not> fault (quiet 15 0) 0 \<and> distinct (map tID (tasks board4)) \<and>
   ListTasks (quiet 15 0) board4 1 = Inr [shipped, moved, written] \<and>
   sorted_wrt taskBefore [shipped, moved, written] \<and>
   mset [shipped, moved, written] = filter_mset (\<lambda>t. tProjectID t = 1) (mset (tasks board4))"
proof -
  have h1: "\<not> fault (quiet 15 0) 0" by (simp add: quiet_def)
  have h2: "distinct (map tID (tasks board4))"
    by (simp add: board4_is written_def shipped_def moved_def)
  have h3: "ListTasks (quiet 15 0) board4 1 = Inr [shipped, moved, written]"
    by (simp add: board4_is ListTasks_def quiet_def taskOrder_def written_def shipped_def moved_def
        less_eq_prod_def)
  obtain ts where ts: "ListTasks (quiet 15 0) board4 1 = Inr ts"
    "mset ts = filter_mset (\<lambda>t. tProjectID t = 1) (mset (tasks board4))"
    "sorted_wrt taskBefore ts"
    using ListTasks_sorted [of "quiet 15 0" board4 1] h1 by blast
  then have "ts = [shipped, moved, written]" using h3 by simp
  then show ?thesis using ts h1 h2 h3 by simp
qed

subsection \<open>C6: Creating a project\<close>

text \<open>
  C6. \<open>CreateProject\<close> fails with the error of an empty name when the trimmed name
  is empty. When a project with the trimmed name exists it fails with the error of
  the \<open>INSERT\<close>, which is the violated uniqueness constraint unless the round trip
  itself failed. In both cases the database is as before. After a call that created a
  project, a call with a name that trims to the same name fails in that way.
\<close>

theorem CreateProject_rejects:
  "(TrimSpace name = [] \<longrightarrow> CreateProject e s name color = (s, Inl ProjectNameEmpty)) \<and>
   (TrimSpace name \<noteq> [] \<longrightarrow> TrimSpace name \<in> set (map pName (projects s)) \<longrightarrow>
      (\<exists>err. CreateProject e s name color = (s, Inl (InsertProjectErr err))) \<and>
      (\<not> fault e 0 \<longrightarrow>
         CreateProject e s name color = (s, Inl (InsertProjectErr ConstraintUnique)))) \<and>
   (CreateProject e s name color = (s1, Inr p) \<longrightarrow> TrimSpace name' = TrimSpace name \<longrightarrow>
      (\<exists>err. CreateProject e' s1 name' color' = (s1, Inl (InsertProjectErr err))) \<and>
      (\<not> fault e' 0 \<longrightarrow>
         CreateProject e' s1 name' color' = (s1, Inl (InsertProjectErr ConstraintUnique))))"
proof -
  have dup: "(\<exists>err. CreateProject e s name color = (s, Inl (InsertProjectErr err))) \<and>
      (\<not> fault e 0 \<longrightarrow>
         CreateProject e s name color = (s, Inl (InsertProjectErr ConstraintUnique)))"
    if "TrimSpace name \<noteq> []" "TrimSpace name \<in> set (map pName (projects s))" for e s name color
    using that by (auto simp: CreateProject_def insertProject_def Let_def)
  show ?thesis
  proof (intro conjI impI)
    assume "TrimSpace name = []"
    then show "CreateProject e s name color = (s, Inl ProjectNameEmpty)"
      by (simp add: CreateProject_def)
  next
    assume a: "TrimSpace name \<noteq> []" "TrimSpace name \<in> set (map pName (projects s))"
    show "\<exists>err. CreateProject e s name color = (s, Inl (InsertProjectErr err))"
      using dup [OF a] by blast
    show "CreateProject e s name color = (s, Inl (InsertProjectErr ConstraintUnique))"
      if "\<not> fault e 0" using dup [OF a] that by blast
  next
    assume r: "CreateProject e s name color = (s1, Inr p)" and n: "TrimSpace name' = TrimSpace name"
    have a: "TrimSpace name' \<noteq> []" "TrimSpace name' \<in> set (map pName (projects s1))"
      using CreateProject_Inr(1,2) [OF r] n by simp_all
    show "\<exists>err. CreateProject e' s1 name' color' = (s1, Inl (InsertProjectErr err))"
      using dup [OF a] by blast
    show "CreateProject e' s1 name' color' = (s1, Inl (InsertProjectErr ConstraintUnique))"
      if "\<not> fault e' 0" using dup [OF a] that by blast
  qed
qed

theorem CreateProject_rejects_witness:
  "TrimSpace ''   '' = [] \<and>
   CreateProject (quiet 20 0) launch ''   '' ''#000000'' = (launch, Inl ProjectNameEmpty) \<and>
   TrimSpace ''  Launch '' \<noteq> [] \<and> TrimSpace ''  Launch '' \<in> set (map pName (projects launch)) \<and>
   \<not> fault (quiet 20 0) 0 \<and>
   CreateProject (quiet 10 0) migrate ''Launch'' [] = (launch, Inr launchRow) \<and>
   TrimSpace ''  Launch '' = TrimSpace ''Launch'' \<and>
   CreateProject (quiet 20 0) launch ''  Launch '' ''#000000'' =
     (launch, Inl (InsertProjectErr ConstraintUnique))"
proof -
  have h1: "TrimSpace ''   '' = []" "TrimSpace ''  Launch '' = ''Launch''"
    "TrimSpace ''Launch'' = ''Launch''"
    by (simp_all add: TrimSpace_padded TrimSpace_plain plain_def asciiSpace_def)
  have h2: "TrimSpace ''  Launch '' \<in> set (map pName (projects launch))"
    by (simp add: h1 launch_is launchRow_sel)
  have h3: "\<not> fault (quiet 20 0) 0" by (simp add: quiet_def)
  have h4: "CreateProject (quiet 10 0) migrate ''Launch'' [] = (launch, Inr launchRow)"
    by (simp add: launch_eval launch_is)
  have a: "CreateProject (quiet 20 0) launch ''   '' ''#000000'' = (launch, Inl ProjectNameEmpty)"
    using CreateProject_rejects [of "''   ''" "quiet 20 0" launch "''#000000''"] h1(1) by blast
  have n: "TrimSpace ''  Launch '' \<noteq> []" using h1 by simp
  have b: "CreateProject (quiet 20 0) launch ''  Launch '' ''#000000'' =
     (launch, Inl (InsertProjectErr ConstraintUnique))"
    using CreateProject_rejects [of "''  Launch ''" "quiet 20 0" launch "''#000000''"] n h2 h3
    by blast
  have e: "TrimSpace ''  Launch '' = TrimSpace ''Launch''" using h1 by simp
  have c: "CreateProject (quiet 20 0) launch ''  Launch '' ''#000000'' =
     (launch, Inl (InsertProjectErr ConstraintUnique))"
    using CreateProject_rejects [of "''Launch''" "quiet 10 0" migrate "[]"
      launch launchRow "''  Launch ''" "quiet 20 0" "''#000000''"] e h3 h4
    by blast
  show ?thesis using a c n e h1(1) h2 h3 h4 by simp
qed

subsection \<open>C7: Tasks and their project\<close>

text \<open>
  C7. In every database the store can produce, each task names a project that
  exists. A successful \<open>DeleteProject\<close> removes the project and with it exactly
  the tasks that name it: none of them is left, \<open>ListTasks\<close> for the project
  returns the empty list, and the tasks of other projects stay as they are.
\<close>

theorem tasks_have_a_project:
  "(reachable s \<longrightarrow> (\<forall>t \<in> set (tasks s). tProjectID t \<in> set (map pID (projects s)))) \<and>
   (DeleteProject e s ident = (s', Inr ()) \<longrightarrow>
      ident \<notin> set (map pID (projects s')) \<and>
      (\<forall>t \<in> set (tasks s'). tProjectID t \<noteq> ident) \<and>
      tasks s' = filter (\<lambda>t. tProjectID t \<noteq> ident) (tasks s) \<and>
      (\<not> fault e' 0 \<longrightarrow> ListTasks e' s' ident = Inr []))"
proof (intro conjI impI)
  assume "reachable s"
  then have "constraints s" by (rule reachable_constraints)
  then show "\<forall>t \<in> set (tasks s). tProjectID t \<in> set (map pID (projects s))"
    by (simp add: constraints_def)
next
  assume r: "DeleteProject e s ident = (s', Inr ())"
  note d = DeleteProject_Inr(2) [OF r]
  show "ident \<notin> set (map pID (projects s'))" by (subst d) auto
  show "\<forall>t \<in> set (tasks s'). tProjectID t \<noteq> ident" by (subst d) simp
  show t: "tasks s' = filter (\<lambda>t. tProjectID t \<noteq> ident) (tasks s)" by (subst d) simp
  show "ListTasks e' s' ident = Inr []" if "\<not> fault e' 0"
    using that by (simp add: ListTasks_def t)
qed

theorem tasks_have_a_project_witness:
  "reachable board4 \<and> set (map tProjectID (tasks board4)) \<subseteq> set (map pID (projects board4)) \<and>
   DeleteProject (quiet 16 0) board4 1 =
     (\<lparr>projects = [], tasks = [], projectsSeq = 1, tasksSeq = 3\<rparr>, Inr ()) \<and>
   \<not> fault (quiet 17 0) 0 \<and>
   ListTasks (quiet 17 0) \<lparr>projects = [], tasks = [], projectsSeq = 1, tasksSeq = 3\<rparr> 1 = Inr []"
proof -
  let ?s' = "\<lparr>projects = [], tasks = [], projectsSeq = 1, tasksSeq = 3\<rparr>"
  have h1: "reachable board4" by (rule reachable_boards)
  have h2: "DeleteProject (quiet 16 0) board4 1 = (?s', Inr ())"
    by (simp add: board4_is launchRow_sel store_eval written_def shipped_def moved_def)
  have h3: "\<not> fault (quiet 17 0) 0" by (simp add: quiet_def)
  note w = tasks_have_a_project [of board4 "quiet 16 0" 1 ?s' "quiet 17 0"]
  have "\<forall>t \<in> set (tasks board4). tProjectID t \<in> set (map pID (projects board4))"
    using w h1 by blast
  then have a: "set (map tProjectID (tasks board4)) \<subseteq> set (map pID (projects board4))"
    by auto
  have b: "ListTasks (quiet 17 0) ?s' 1 = Inr []"
    using w h2 h3 by blast
  show ?thesis using a b h1 h2 h3 by blast
qed

subsection \<open>C8: Errors and what is persisted\<close>




subsection \<open>C9: Listing the projects\<close>

text \<open>
  C9 (as stated, refuted). ``Launch'' is created first and ``Plan'' second, at a
  moment when the clock of the database shows an earlier time (the clock was set
  back in between). \<open>ListProjects\<close> returns ``Plan'' first: the project created
  earlier does not come first.
\<close>

theorem ListProjects_stepback:
  "CreateProject (quiet 10 0) migrate ''Launch'' [] = (launch, Inr launchRow) \<and>
   CreateProject (quiet 5 0) launch ''Plan'' ''#111111'' = (stepback, Inr earlyRow) \<and>
   reachable stepback \<and> projects stepback = [launchRow, earlyRow] \<and>
   pID launchRow < pID earlyRow \<and>
   ListProjects (quiet 20 0) stepback = Inr [earlyRow, launchRow] \<and>
   \<not> precedes launchRow earlyRow [earlyRow, launchRow]"
proof -
  have c: "CreateProject (quiet 10 0) migrate ''Launch'' [] = (launch, Inr launchRow)"
    by (simp add: launch_is launch_eval)
  have c': "CreateProject (quiet 5 0) launch ''Plan'' ''#111111'' = (stepback, Inr earlyRow)"
    by (simp add: stepback_is stepback_eval)
  show ?thesis
    using reachable_stepback c c'
    by (simp add: stepback_is ListProjects_def quiet_def launchRow_def earlyRow_def)
qed

text \<open>
  C9 (amended). When its round trip does not fail, \<open>ListProjects\<close> returns all rows of
  \<open>projects\<close>, each once, in ascending order of \<open>created_at\<close>. A project the store
  creates is appended to the table, with an id above all ids of the table and the
  clock of that moment as \<open>created_at\<close>. Of two projects, the one created earlier
  (the one with the smaller id) comes first whenever its \<open>created_at\<close> is not the
  later one of the two, also when the two are equal; so when the values of
  \<open>created_at\<close> follow the order of creation, the list is the table in the order of
  creation.
\<close>

theorem ListProjects_order:
  "(\<not> fault e 0 \<longrightarrow>
     (\<exists>ps. ListProjects e s = Inr ps \<and> mset ps = mset (projects s) \<and>
        sorted (map pCreatedAt ps) \<and>
        (sorted (map pCreatedAt (projects s)) \<longrightarrow> ps = projects s) \<and>
        (reachable s \<longrightarrow>
           (\<forall>p \<in> set (projects s). \<forall>q \<in> set (projects s).
              pID p < pID q \<longrightarrow> pCreatedAt p \<le> pCreatedAt q \<longrightarrow> precedes p q ps)))) \<and>
   (reachable s \<longrightarrow> CreateProject e' s name color = (s', Inr p') \<longrightarrow>
      projects s' = projects s @ [p'] \<and> pCreatedAt p' = now e' \<and>
      (\<forall>q \<in> set (projects s). pID q < pID p'))"
proof (intro conjI impI)
  assume nf: "\<not> fault e 0"
  define ps where "ps = sort_key pCreatedAt (projects s)"
  have r: "ListProjects e s = Inr ps" using nf by (simp add: ListProjects_def ps_def)
  have m: "mset ps = mset (projects s)" by (simp add: ps_def)
  have so: "sorted (map pCreatedAt ps)" unfolding ps_def by (rule sorted_sort_key)
  have same: "ps = projects s" if "sorted (map pCreatedAt (projects s))"
    unfolding ps_def using that by (rule sort_key_id_if_sorted)
  have ord: "precedes p q ps"
    if rs: "reachable s" and p: "p \<in> set (projects s)" and q: "q \<in> set (projects s)"
      and i: "pID p < pID q" and pq: "pCreatedAt p \<le> pCreatedAt q"
    for p q
  proof (cases "pCreatedAt p < pCreatedAt q")
    case True
    moreover have "p \<in> set ps" "q \<in> set ps" using p q by (simp_all add: ps_def)
    ultimately show ?thesis using so by (intro sorted_precedes [where f = pCreatedAt])
  next
    case False
    then have a: "pCreatedAt p = pCreatedAt q" using pq by simp
    have "sorted_wrt (<) (map pID (projects s))"
      using reachable_idsIncrease [OF rs] by (simp add: idsIncrease_def)
    then have "precedes p q (projects s)"
      using p q i by (intro increasing_precedes [where k = pID]) simp_all
    then show ?thesis unfolding ps_def using a by (intro stable_precedes) simp_all
  qed
  show "\<exists>ps. ListProjects e s = Inr ps \<and> mset ps = mset (projects s) \<and>
        sorted (map pCreatedAt ps) \<and>
        (sorted (map pCreatedAt (projects s)) \<longrightarrow> ps = projects s) \<and>
        (reachable s \<longrightarrow>
           (\<forall>p \<in> set (projects s). \<forall>q \<in> set (projects s).
              pID p < pID q \<longrightarrow> pCreatedAt p \<le> pCreatedAt q \<longrightarrow> precedes p q ps))"
    using r m so same ord by blast
next
  assume rs: "reachable s" and c: "CreateProject e' s name color = (s', Inr p')"
  note row = CreateProject_row [OF reachable_constraints [OF rs] c]
  show "projects s' = projects s @ [p']" by (rule row(1))
  show "pCreatedAt p' = now e'" by (rule row(2))
  show "\<forall>q \<in> set (projects s). pID q < pID p'" by (rule row(3))
qed

theorem ListProjects_order_witness:
  "\<not> fault (quiet 20 0) 0 \<and> reachable office \<and>
   sorted (map pCreatedAt (projects office)) \<and>
   ListProjects (quiet 20 0) office = Inr [launchRow, planRow, opsRow] \<and>
   launchRow \<in> set (projects office) \<and> planRow \<in> set (projects office) \<and>
   pID launchRow < pID planRow \<and> pCreatedAt launchRow \<le> pCreatedAt planRow \<and>
   precedes launchRow planRow [launchRow, planRow, opsRow] \<and>
   reachable launch \<and>
   CreateProject (quiet 5 0) launch ''Plan'' ''#111111'' = (stepback, Inr earlyRow) \<and>
   projects stepback = projects launch @ [earlyRow] \<and> pCreatedAt earlyRow = now (quiet 5 0) \<and>
   pID launchRow < pID earlyRow"
proof -
  have h1: "\<not> fault (quiet 20 0) 0" by (simp add: quiet_def)
  have h2: "sorted (map pCreatedAt (projects office))"
    by (simp add: office_is launchRow_def planRow_def opsRow_def)
  have h3: "launchRow \<in> set (projects office)" "planRow \<in> set (projects office)"
    "pID launchRow < pID planRow" "pCreatedAt launchRow \<le> pCreatedAt planRow"
    by (simp_all add: office_is launchRow_def planRow_def)
  obtain ps where ps: "ListProjects (quiet 20 0) office = Inr ps"
    "sorted (map pCreatedAt (projects office)) \<longrightarrow> ps = projects office"
    "reachable office \<longrightarrow>
           (\<forall>p \<in> set (projects office). \<forall>q \<in> set (projects office).
              pID p < pID q \<longrightarrow> pCreatedAt p \<le> pCreatedAt q \<longrightarrow> precedes p q ps)"
    using ListProjects_order [of "quiet 20 0" office] h1 by blast
  have eq: "ps = [launchRow, planRow, opsRow]" using ps(2) h2 by (simp add: office_is)
  have pr: "precedes launchRow planRow ps" using ps(3) reachable_office h3 by blast
  have c: "CreateProject (quiet 5 0) launch ''Plan'' ''#111111'' = (stepback, Inr earlyRow)"
    by (simp add: stepback_def stepback_eval)
  have l: "launchRow \<in> set (projects launch)" by (simp add: launch_is)
  have n: "projects stepback = projects launch @ [earlyRow] \<and> pCreatedAt earlyRow = now (quiet 5 0) \<and>
      (\<forall>q \<in> set (projects launch). pID q < pID earlyRow)"
    using ListProjects_order [where s = launch and e' = "quiet 5 0" and name = "''Plan''"
        and color = "''#111111''" and s' = stepback and p' = earlyRow]
      reachable_boards(1) c by blast
  then have "pID launchRow < pID earlyRow" using l by blast
  then show ?thesis using ps(1) eq h1 h2 h3 pr reachable_office reachable_boards(1) c n by simp
qed

subsection \<open>C10: What an update leaves alone\<close>

text \<open>
  C10. Whatever the patch and whatever the outcome of the call, \<open>UpdateTask\<close> leaves
  the columns \<open>id\<close>, \<open>project_id\<close> and \<open>created_at\<close> of every row of \<open>tasks\<close> as
  they were, and the table \<open>projects\<close> too; the row it returns has the id, the
  project and the creation time of the row it found. No update moves a task to
  another project.
\<close>

theorem UpdateTask_frame:
  "map tID (tasks (fst (UpdateTask e s ident changes))) = map tID (tasks s) \<and>
   map tProjectID (tasks (fst (UpdateTask e s ident changes))) = map tProjectID (tasks s) \<and>
   map tCreatedAt (tasks (fst (UpdateTask e s ident changes))) = map tCreatedAt (tasks s) \<and>
   projects (fst (UpdateTask e s ident changes)) = projects s \<and>
   (UpdateTask e s ident changes = (s', Inr t') \<longrightarrow>
    GetTask False s ident = Inr current \<longrightarrow>
      tID t' = ident \<and> tID current = ident \<and>
      tProjectID t' = tProjectID current \<and> tCreatedAt t' = tCreatedAt current)"
proof (intro conjI impI)
  show "map tID (tasks (fst (UpdateTask e s ident changes))) = map tID (tasks s)"
    using UpdateTask_fst [of e s ident changes]
    by (elim disjE exE conjE) (simp_all add: map_key_update del: map_map)
  show "map tProjectID (tasks (fst (UpdateTask e s ident changes))) = map tProjectID (tasks s)"
    using UpdateTask_fst [of e s ident changes]
    by (elim disjE exE conjE) (simp_all add: map_key_update del: map_map)
  show "map tCreatedAt (tasks (fst (UpdateTask e s ident changes))) = map tCreatedAt (tasks s)"
    using UpdateTask_fst [of e s ident changes]
    by (elim disjE exE conjE) (simp_all add: map_key_update del: map_map)
  show "projects (fst (UpdateTask e s ident changes)) = projects s"
    using UpdateTask_fst [of e s ident changes] by auto
next
  assume r: "UpdateTask e s ident changes = (s', Inr t')"
    and g: "GetTask False s ident = Inr current"
  note u = UpdateTask_Inr_current [OF r g]
  show "tID current = ident" by (rule u(5))
  show "tID t' = ident" by (rule u(4))
  show "tProjectID t' = tProjectID current" by (rule u(6))
  show "tCreatedAt t' = tCreatedAt current" by (rule u(7))
qed

theorem UpdateTask_frame_witness:
  "UpdateTask (quiet 14 0) board3 3 toProgress = (board4, Inr moved) \<and>
   GetTask False board3 3 = Inr review \<and>
   tID moved = 3 \<and> tID review = 3 \<and> tProjectID moved = tProjectID review \<and>
   tCreatedAt moved = tCreatedAt review"
proof -
  have h1: "GetTask False board3 3 = Inr review"
    by (simp add: board3_is GetTask_def written_def shipped_def review_def)
  have h2: "UpdateTask (quiet 14 0) board3 3 toProgress = (board4, Inr moved)"
    by (simp add: board4_is board4_eval)
  show ?thesis
    using UpdateTask_frame [of "quiet 14 0" board3 3 toProgress board4 moved review] h1 h2
    by blast
qed

end
